theory Spec2Isabelle
  imports Main "HOL-Library.Word"
begin

section \<open>JavaScript strings\<close>

text \<open>
  A JavaScript string is a sequence of UTF-16 code units. \<open>js\<close> writes an ASCII
  literal as such a sequence. Iterating a string (\<^verbatim>\<open>[...s]\<close>, \<^verbatim>\<open>for (const ch of s)\<close>)
  goes by code point: a lead surrogate directly followed by a trail surrogate is one
  element of two code units, every other code unit is an element of its own.
\<close>

type_synonym code_unit = "16 word"
type_synonym jsstring = "code_unit list"

definition js :: "string \<Rightarrow> jsstring" where
  "js s = map of_char s"

definition isLeadSurrogate :: "code_unit \<Rightarrow> bool" where
  "isLeadSurrogate u = (0xD800 \<le> u \<and> u \<le> 0xDBFF)"

definition isTrailSurrogate :: "code_unit \<Rightarrow> bool" where
  "isTrailSurrogate u = (0xDC00 \<le> u \<and> u \<le> 0xDFFF)"

fun codePoints :: "jsstring \<Rightarrow> jsstring list" where
  "codePoints [] = []"
| "codePoints [u] = [[u]]"
| "codePoints (u # v # r) =
     (if isLeadSurrogate u \<and> isTrailSurrogate v then [u, v] # codePoints r
      else [u] # codePoints (v # r))"

text \<open>A symbol that is exactly one well-formed code point (no unpaired surrogate).\<close>

definition isScalar :: "jsstring \<Rightarrow> bool" where
  "isScalar s =
     (case s of
        [u] \<Rightarrow> \<not> isLeadSurrogate u \<and> \<not> isTrailSurrogate u
      | [u, v] \<Rightarrow> isLeadSurrogate u \<and> isTrailSurrogate v
      | _ \<Rightarrow> False)"

section \<open>scripts/base.ts: convertBase\<close>

text \<open>
  The alphabets arrive as \<^verbatim>\<open>string | string[]\<close>; \<open>normalizeBase\<close> also guards against
  any other runtime value, which \<open>BaseOther\<close> stands for. The errors are the thrown
  classes: \<open>TypeError\<close> of \<open>normalizeBase\<close> (and of \<^verbatim>\<open>BigInt(undefined)\<close>), the plain
  \<open>Error\<close> of the duplicate and membership checks, and the \<open>RangeError\<close> of a BigInt
  division by zero. A returned value is a string or, where the source reads
  \<^verbatim>\<open>toSymbols[0]\<close> of an empty array, \<^verbatim>\<open>undefined\<close>.
\<close>

datatype base_arg = BaseString jsstring | BaseArray "jsstring list" | BaseOther

datatype js_error = TypeError | Error | RangeError

datatype js_value = Undefined | Str jsstring

definition normalizeBase :: "base_arg \<Rightarrow> js_error + jsstring list" where
  "normalizeBase base =
     (case base of
        BaseString s \<Rightarrow> Inr (codePoints s)
      | BaseArray a \<Rightarrow> Inr a
      | BaseOther \<Rightarrow> Inl TypeError)"

definition hasDuplicates :: "jsstring list \<Rightarrow> bool" where
  "hasDuplicates arr = (card (set arr) \<noteq> length arr)"

text \<open>\<^verbatim>\<open>new Map(fromSymbols.map((sym, i) => [sym, i]))\<close>: a later entry of the same key wins.\<close>

definition fromMap :: "jsstring list \<Rightarrow> jsstring \<Rightarrow> nat option" where
  "fromMap fromSymbols = map_of (rev (zip fromSymbols [0 ..< length fromSymbols]))"

text \<open>The validation loop: the first character of the value that the map lacks throws.\<close>

fun validateValue :: "(jsstring \<Rightarrow> nat option) \<Rightarrow> jsstring list \<Rightarrow> js_error + unit" where
  "validateValue m [] = Inr ()"
| "validateValue m (ch # chs) =
     (if m ch = None then Inl Error else validateValue m chs)"

text \<open>
  The accumulation loop over BigInt: \<^verbatim>\<open>num = num * BigInt(fromBase) + BigInt(fromMap.get(ch)!)\<close>.
  \<^verbatim>\<open>BigInt(undefined)\<close> throws a TypeError.
\<close>

fun accumulate :: "(jsstring \<Rightarrow> nat option) \<Rightarrow> int \<Rightarrow> int \<Rightarrow> jsstring list \<Rightarrow> js_error + int" where
  "accumulate m fromBase num [] = Inr num"
| "accumulate m fromBase num (ch # chs) =
     (case m ch of
        None \<Rightarrow> Inl TypeError
      | Some i \<Rightarrow> accumulate m fromBase (num * fromBase + int i) chs)"

text \<open>
  The output loop \<^verbatim>\<open>while (num > 0n)\<close>. With an empty destination alphabet
  \<^verbatim>\<open>num % 0n\<close> throws a RangeError; with a one-symbol alphabet \<^verbatim>\<open>num / 1n\<close> is \<open>num\<close>
  again and the loop does not end (the value \<open>None\<close>; strings are unbounded here, an
  engine gives up when \<open>result\<close> exceeds its longest string). Inside the loop \<open>num\<close>
  and the base are positive, where BigInt's truncating \<^verbatim>\<open>/\<close> and \<^verbatim>\<open>%\<close> are \<open>div\<close> and
  \<open>mod\<close>.
\<close>

partial_function (option) toDigits ::
  "jsstring list \<Rightarrow> int \<Rightarrow> jsstring \<Rightarrow> (js_error + jsstring) option" where
  "toDigits toSymbols num result =
     (if num > 0 then
        (if length toSymbols = 0 then Some (Inl RangeError)
         else toDigits toSymbols (num div int (length toSymbols))
                (toSymbols ! nat (num mod int (length toSymbols)) @ result))
      else Some (Inr result))"

definition convertBase :: "jsstring \<Rightarrow> base_arg \<Rightarrow> base_arg \<Rightarrow> (js_error + js_value) option" where
  "convertBase val fromBaseSymbols toBaseSymbols =
     (case normalizeBase fromBaseSymbols of
        Inl e \<Rightarrow> Some (Inl e)
      | Inr fromSymbols \<Rightarrow>
     (case normalizeBase toBaseSymbols of
        Inl e \<Rightarrow> Some (Inl e)
      | Inr toSymbols \<Rightarrow>
     if hasDuplicates fromSymbols then Some (Inl Error)
     else if hasDuplicates toSymbols then Some (Inl Error)
     else
     (case validateValue (fromMap fromSymbols) (codePoints val) of
        Inl e \<Rightarrow> Some (Inl e)
      | Inr _ \<Rightarrow>
     (case accumulate (fromMap fromSymbols) (int (length fromSymbols)) 0 (codePoints val) of
        Inl e \<Rightarrow> Some (Inl e)
      | Inr num \<Rightarrow>
     if num = 0 then
       (case toSymbols of [] \<Rightarrow> Some (Inr Undefined) | s # _ \<Rightarrow> Some (Inr (Str s)))
     else
     (case toDigits toSymbols num [] of
        None \<Rightarrow> None
      | Some (Inl e) \<Rightarrow> Some (Inl e)
      | Some (Inr result) \<Rightarrow> Some (Inr (Str result)))))))"

text \<open>
  What the specification calls leading-zero-symbol normalization of a numeral, on its
  list of digits: the leading occurrences of the zero symbol are dropped, and a numeral
  of zero symbols only (or none) is the single zero symbol.
\<close>

definition stripLeadingZeros :: "jsstring \<Rightarrow> jsstring list \<Rightarrow> jsstring list" where
  "stripLeadingZeros z ds =
     (case dropWhile (\<lambda>d. d = z) ds of [] \<Rightarrow> [z] | d # r \<Rightarrow> d # r)"

section \<open>Strings: the methods the engine uses\<close>

abbreviation SLASH :: code_unit where "SLASH \<equiv> 0x2F"
abbreviation BACKSLASH :: code_unit where "BACKSLASH \<equiv> 0x5C"
abbreviation DOT :: code_unit where "DOT \<equiv> 0x2E"
abbreviation NEWLINE :: code_unit where "NEWLINE \<equiv> 0x0A"
abbreviation DOLLAR :: code_unit where "DOLLAR \<equiv> 0x24"

text \<open>\<^verbatim>\<open>s.replace(/\\/g, '/')\<close>: every backslash becomes a slash.\<close>

definition slashes :: "jsstring \<Rightarrow> jsstring" where
  "slashes s = map (\<lambda>c. if c = BACKSLASH then SLASH else c) s"

definition startsWith :: "jsstring \<Rightarrow> jsstring \<Rightarrow> bool" where
  "startsWith s p = (take (length p) s = p)"

text \<open>
  \<^verbatim>\<open>\s\<close> of a regular expression: the white space and line terminator code points.
  \<^verbatim>\<open>.\<close> matches every code unit but the four line terminators.
\<close>

definition isWhiteSpace :: "code_unit \<Rightarrow> bool" where
  "isWhiteSpace c =
     (c \<in> {0x09, 0x0A, 0x0B, 0x0C, 0x0D, 0x20, 0xA0, 0x1680, 0x2028, 0x2029, 0x202F,
            0x205F, 0x3000, 0xFEFF} \<or> (0x2000 \<le> c \<and> c \<le> 0x200A))"

definition isLineTerminator :: "code_unit \<Rightarrow> bool" where
  "isLineTerminator c = (c \<in> {0x0A, 0x0D, 0x2028, 0x2029})"

text \<open>
  Matching under the \<^verbatim>\<open>i\<close> flag compares canonical forms. Against an ASCII pattern
  character only the ASCII letters fold: a code unit from 128 on never canonicalises
  to an ASCII one.
\<close>

definition canonicalize :: "code_unit \<Rightarrow> code_unit" where
  "canonicalize c = (if 0x61 \<le> c \<and> c \<le> 0x7A then c - 0x20 else c)"

definition startsWithIgnoreCase :: "jsstring \<Rightarrow> jsstring \<Rightarrow> bool" where
  "startsWithIgnoreCase s p = (map canonicalize (take (length p) s) = map canonicalize p)"

text \<open>
  \<^verbatim>\<open>toLowerCase\<close>, as far as the engine observes it: the result is only compared with
  ASCII file extensions, none of which has a \<open>k\<close>, and no code unit from 128 on
  lower-cases to another ASCII letter.
\<close>

definition toLowerCase :: "jsstring \<Rightarrow> jsstring" where
  "toLowerCase s = map (\<lambda>c. if 0x41 \<le> c \<and> c \<le> 0x5A then c + 0x20 else c) s"

text \<open>The decimal digits and their values.\<close>

definition isDigit :: "code_unit \<Rightarrow> bool" where
  "isDigit c = (0x30 \<le> c \<and> c \<le> 0x39)"

definition digitValue :: "code_unit \<Rightarrow> nat" where
  "digitValue c = unat c - 0x30"

section \<open>Node's path module, POSIX flavour\<close>

text \<open>
  The engine calls \<^verbatim>\<open>path.normalize\<close>, \<^verbatim>\<open>path.resolve\<close>, \<^verbatim>\<open>path.relative\<close>, \<^verbatim>\<open>path.isAbsolute\<close>,
  \<^verbatim>\<open>path.dirname\<close> and \<^verbatim>\<open>path.extname\<close> of the Node.js runtime. They are modelled on path
  segments, as Node's POSIX implementation computes them: the separator is the slash, a
  backslash is an ordinary character. The working directory \<^verbatim>\<open>process.cwd()\<close> is the
  parameter \<open>cwd\<close>.
\<close>

fun splitAt :: "code_unit \<Rightarrow> jsstring \<Rightarrow> jsstring \<Rightarrow> jsstring list" where
  "splitAt sep cur [] = [rev cur]"
| "splitAt sep cur (c # cs) =
     (if c = sep then rev cur # splitAt sep [] cs else splitAt sep (c # cur) cs)"

definition segments :: "jsstring \<Rightarrow> jsstring list" where
  "segments p = splitAt SLASH [] p"

fun joinSlash :: "jsstring list \<Rightarrow> jsstring" where
  "joinSlash [] = []"
| "joinSlash [s] = s"
| "joinSlash (s # t # r) = s @ SLASH # joinSlash (t # r)"

text \<open>
  \<^verbatim>\<open>normalizeString\<close>: empty and \<open>.\<close> segments are skipped; \<open>..\<close> removes the segment
  before it, and is kept (when the path is relative, \<open>allowAboveRoot\<close>) or dropped (when it is
  absolute) where there is none. \<open>res\<close> is the result so far, last segment first.
\<close>

fun normalizeSegments :: "bool \<Rightarrow> jsstring list \<Rightarrow> jsstring list \<Rightarrow> jsstring list" where
  "normalizeSegments allowAboveRoot res [] = rev res"
| "normalizeSegments allowAboveRoot res (seg # segs) =
     (if seg = [] \<or> seg = [DOT] then normalizeSegments allowAboveRoot res segs
      else if seg = [DOT, DOT] then
        (case res of
           [] \<Rightarrow> normalizeSegments allowAboveRoot (if allowAboveRoot then [[DOT, DOT]] else []) segs
         | lastSeg # rest \<Rightarrow>
             if lastSeg = [DOT, DOT] then
               normalizeSegments allowAboveRoot (if allowAboveRoot then [DOT, DOT] # res else res) segs
             else normalizeSegments allowAboveRoot rest segs)
      else normalizeSegments allowAboveRoot (seg # res) segs)"

definition normalizeString :: "jsstring \<Rightarrow> bool \<Rightarrow> jsstring" where
  "normalizeString p allowAboveRoot = joinSlash (normalizeSegments allowAboveRoot [] (segments p))"

definition isAbsolute :: "jsstring \<Rightarrow> bool" where
  "isAbsolute p = (case p of [] \<Rightarrow> False | c # _ \<Rightarrow> c = SLASH)"

definition normalize :: "jsstring \<Rightarrow> jsstring" where
  "normalize p =
     (if p = [] then [DOT]
      else
        let absolute = isAbsolute p;
            trailingSeparator = (last p = SLASH);
            q = normalizeString p (\<not> absolute)
        in if q = [] then (if absolute then [SLASH] else if trailingSeparator then [DOT, SLASH] else [DOT])
           else (if absolute then [SLASH] else []) @ q @ (if trailingSeparator then [SLASH] else []))"

text \<open>
  \<^verbatim>\<open>path.resolve(...args)\<close>: the arguments are taken from the right, empty ones skipped,
  until one is absolute; the working directory comes last. \<open>resolveLoop\<close> gets them
  in that order.
\<close>

fun resolveLoop :: "jsstring list \<Rightarrow> jsstring \<Rightarrow> jsstring \<times> bool" where
  "resolveLoop [] resolvedPath = (resolvedPath, False)"
| "resolveLoop (p # ps) resolvedPath =
     (if p = [] then resolveLoop ps resolvedPath
      else if isAbsolute p then (p @ SLASH # resolvedPath, True)
      else resolveLoop ps (p @ SLASH # resolvedPath))"

definition resolve :: "jsstring \<Rightarrow> jsstring list \<Rightarrow> jsstring" where
  "resolve cwd args =
     (case resolveLoop (rev args @ [cwd]) [] of
        (resolvedPath, resolvedAbsolute) \<Rightarrow>
          let q = normalizeString resolvedPath (\<not> resolvedAbsolute)
          in if resolvedAbsolute then SLASH # q else if q \<noteq> [] then q else [DOT])"

text \<open>
  \<^verbatim>\<open>path.dirname\<close>: trailing slashes and the last segment are cut off; \<open>r\<close> holds, in
  reverse, the characters from index 1 up to the slash that ends the directory.
\<close>

definition dirname :: "jsstring \<Rightarrow> jsstring" where
  "dirname p =
     (if p = [] then [DOT]
      else
        let hasRoot = isAbsolute p;
            r = dropWhile (\<lambda>c. c \<noteq> SLASH) (dropWhile (\<lambda>c. c = SLASH) (rev (tl p)))
        in if r = [] then (if hasRoot then [SLASH] else [DOT])
           else if hasRoot \<and> length r = 1 then [SLASH, SLASH]
           else take (length r) p)"

text \<open>
  \<^verbatim>\<open>path.extname\<close>: from the last dot of the last segment, unless that segment has no
  dot, starts with its only dot, or is \<open>..\<close>. \<open>revBase\<close> is the last segment, without
  trailing slashes, in reverse, and \<open>revExt\<close> what follows its last dot, in reverse.
\<close>

definition extname :: "jsstring \<Rightarrow> jsstring" where
  "extname p =
     (let revBase = takeWhile (\<lambda>c. c \<noteq> SLASH) (dropWhile (\<lambda>c. c = SLASH) (rev p));
          revExt = takeWhile (\<lambda>c. c \<noteq> DOT) revBase
      in if DOT \<notin> set revBase then []
         else if drop (length revExt + 1) revBase = [] then []
         else if revBase = [DOT, DOT] then []
         else DOT # rev revExt)"

text \<open>
  \<^verbatim>\<open>path.relative(from, to)\<close>: both are resolved, their common leading segments dropped,
  and one \<open>..\<close> stands for each segment left of \<open>from\<close>.
\<close>

fun dropCommon :: "jsstring list \<Rightarrow> jsstring list \<Rightarrow> jsstring list \<times> jsstring list" where
  "dropCommon (a # as) (b # bs) = (if a = b then dropCommon as bs else (a # as, b # bs))"
| "dropCommon as bs = (as, bs)"

definition relative :: "jsstring \<Rightarrow> jsstring \<Rightarrow> jsstring \<Rightarrow> jsstring" where
  "relative cwd from to =
     (if from = to then []
      else
        let f = resolve cwd [from]; t = resolve cwd [to]
        in if f = t then []
           else
             (case dropCommon (filter (\<lambda>s. s \<noteq> []) (segments f)) (filter (\<lambda>s. s \<noteq> []) (segments t)) of
                (fs, ts) \<Rightarrow> joinSlash (map (\<lambda>_. [DOT, DOT]) fs @ ts)))"

section \<open>The injection engine (the implementation with import rewriting)\<close>

subsection \<open>Constants and regular expressions\<close>

text \<open>
  \<^verbatim>\<open>__VIRTUAL_ID_PREFIX = '@InjectionHooks_ts:'.toLocaleLowerCase()\<close>, in a locale with the
  ordinary lower case of the ASCII letters.
\<close>

definition VIRTUAL_ID_PREFIX :: jsstring where
  "VIRTUAL_ID_PREFIX = toLowerCase (js ''@InjectionHooks_ts:'')"

text \<open>
  \<^verbatim>\<open>__INJECTIONHOOKS_REGEX = /^\s*@InjectionHooks_ts:/i\<close>, its \<^verbatim>\<open>test\<close>. The at sign is no
  white space, so the greedy \<^verbatim>\<open>\s*\<close> takes the whole leading run.
\<close>

definition INJECTIONHOOKS_REGEX_test :: "jsstring \<Rightarrow> bool" where
  "INJECTIONHOOKS_REGEX_test s =
     startsWithIgnoreCase (dropWhile isWhiteSpace s) (js ''@InjectionHooks_ts:'')"

text \<open>
  \<^verbatim>\<open>REGEX_START_RELATIVE_PATH = /(^|\n)\s*(\.{1,2}(\/|\\)|[^\s\.\/\\])/\<close>. A match starts at
  the beginning of the string or at a line feed; after the white space there, either one
  or two dots and a slash or backslash follow, or any character that is not white space,
  dot, slash or backslash.
\<close>

definition relativeStartHere :: "jsstring \<Rightarrow> bool" where
  "relativeStartHere s =
     (case dropWhile isWhiteSpace s of
        [] \<Rightarrow> False
      | c # r \<Rightarrow>
          if c = DOT then
            (case r of
               [] \<Rightarrow> False
             | d # r' \<Rightarrow>
                 d = SLASH \<or> d = BACKSLASH \<or>
                 (d = DOT \<and> (case r' of [] \<Rightarrow> False | e # _ \<Rightarrow> e = SLASH \<or> e = BACKSLASH)))
          else c \<noteq> SLASH \<and> c \<noteq> BACKSLASH)"

fun relativeStartAfterNewline :: "jsstring \<Rightarrow> bool" where
  "relativeStartAfterNewline [] = False"
| "relativeStartAfterNewline (c # r) =
     ((c = NEWLINE \<and> relativeStartHere r) \<or> relativeStartAfterNewline r)"

definition REGEX_START_RELATIVE_PATH_test :: "jsstring \<Rightarrow> bool" where
  "REGEX_START_RELATIVE_PATH_test s = (relativeStartHere s \<or> relativeStartAfterNewline s)"

text \<open>
  \<^verbatim>\<open>/\s*[^:\s@]:(\/\/)?/i.test(s)\<close>: \<^verbatim>\<open>\s*\<close> and \<^verbatim>\<open>(\/\/)?\<close> may match nothing, so the test
  holds exactly when some character other than colon, white space and at sign is directly
  followed by a colon.
\<close>

fun urlSchemeTest :: "jsstring \<Rightarrow> bool" where
  "urlSchemeTest (a # b # r) =
     ((a \<noteq> 0x3A \<and> \<not> isWhiteSpace a \<and> a \<noteq> 0x40 \<and> b = 0x3A) \<or> urlSchemeTest (b # r))"
| "urlSchemeTest _ = False"

subsection \<open>GEN_ID\<close>

text \<open>
  The second parameter is \<^verbatim>\<open>boolean | number\<close>, by default \<^verbatim>\<open>true\<close>. The condition of
  the conditional expression is the whole parenthesis: the prefix or the empty string,
  concatenated with the boolean \<^verbatim>\<open>withID_OrAbsolute === 1\<close>, which the concatenation
  turns into \<^verbatim>\<open>"true"\<close> or \<^verbatim>\<open>"false"\<close>. A string is truthy when it is not empty.
\<close>

datatype flag = FlagBool bool | FlagNumber int

definition GEN_ID :: "jsstring \<Rightarrow> jsstring \<Rightarrow> flag \<Rightarrow> jsstring" where
  "GEN_ID cwd f withID_OrAbsolute =
     (let absolutePath = resolve cwd [cwd, f];
          relativePath = relative cwd cwd absolutePath;
          condition = (if withID_OrAbsolute = FlagBool True then VIRTUAL_ID_PREFIX else [])
                      @ (if withID_OrAbsolute = FlagNumber 1 then js ''true'' else js ''false'')
      in if condition \<noteq> [] then slashes absolutePath
         else slashes (normalize relativePath))"

subsection \<open>fasterSimpleResolveAbsolutePath\<close>

text \<open>The result is \<^verbatim>\<open>string | Number\<close>: a path, or one of the codes -1 to -4.\<close>

datatype resolution = Path jsstring | Code int

definition truthy :: "jsstring option \<Rightarrow> bool" where
  "truthy importer = (case importer of None \<Rightarrow> False | Some s \<Rightarrow> s \<noteq> [])"

definition fasterSimpleResolveAbsolutePath ::
  "jsstring \<Rightarrow> jsstring \<Rightarrow> jsstring option \<Rightarrow> resolution" where
  "fasterSimpleResolveAbsolutePath cwd source importer =
     (let normalizedSource = slashes (normalize source) in
      if isAbsolute normalizedSource then Path normalizedSource
      else if urlSchemeTest normalizedSource then Code (- 1)
      else if startsWith normalizedSource (js ''@'')
              \<and> \<not> startsWith normalizedSource (js ''./'')
              \<and> \<not> startsWith normalizedSource (js ''../'') then Code (- 2)
      else if truthy importer
              \<and> \<not> REGEX_START_RELATIVE_PATH_test source
              \<and> \<not> REGEX_START_RELATIVE_PATH_test source
              \<and> \<not> isAbsolute normalizedSource
              \<and> \<not> isAbsolute source then Code (- 3)
      else if truthy importer
              \<and> (REGEX_START_RELATIVE_PATH_test source
                   \<or> REGEX_START_RELATIVE_PATH_test normalizedSource) then
        (let importerDir = dirname (the importer);
             fullPath = resolve cwd [importerDir, normalizedSource]
         in Path (slashes (normalize fullPath)))
      else Code (- 4))"

subsection \<open>Hooks and the registry\<close>

text \<open>
  A hook has a file path, an optional \<^verbatim>\<open>isMatch\<close> and a content function. \<open>isMatch\<close>
  accepts a regular expression, a function, or an object with an \<^verbatim>\<open>isMatch\<close> property of
  its own, to which it delegates. The \<^verbatim>\<open>test\<close> of a regular expression without the
  \<^verbatim>\<open>g\<close> and \<^verbatim>\<open>y\<close> flags, as the repository's hooks have them, is a predicate.
\<close>

datatype tester = RegExp "jsstring \<Rightarrow> bool" | Func "jsstring \<Rightarrow> bool" | Object hook
  and hook = Hook (filePath: jsstring) (isMatchProp: "tester option") (getContent: "unit \<Rightarrow> jsstring")

fun isMatch :: "tester \<Rightarrow> jsstring \<Rightarrow> bool" where
  "isMatch (RegExp t) path = t path"
| "isMatch (Func t) path = t path"
| "isMatch (Object (Hook f None g)) path = False"
| "isMatch (Object (Hook f (Some t) g)) path = isMatch t path"

text \<open>
  The registry is a plain object: its keys with their hooks, in the order of their
  insertion. An assignment to a key that exists keeps its place and replaces its hook; a
  new key goes to the end.
\<close>

type_synonym registry = "(jsstring \<times> hook) list"

fun assign :: "registry \<Rightarrow> jsstring \<Rightarrow> hook \<Rightarrow> registry" where
  "assign [] k h = [(k, h)]"
| "assign ((k', h') # r) k h = (if k' = k then (k, h) # r else (k', h') # assign r k h)"

text \<open>
  \<^verbatim>\<open>for (const id in ...)\<close> and \<^verbatim>\<open>Object.values\<close> enumerate the properties of an object
  with the array indices first, in ascending numeric order, and then the other keys in
  the order of their insertion. An array index is the decimal numeral, without leading
  zeros, of an integer up to \<open>2^32 - 2\<close>.
\<close>

definition indexValue :: "jsstring \<Rightarrow> nat" where
  "indexValue k = foldl (\<lambda>n c. 10 * n + digitValue c) 0 k"

definition isArrayIndex :: "jsstring \<Rightarrow> bool" where
  "isArrayIndex k =
     (k \<noteq> [] \<and> list_all isDigit k \<and> (k = [0x30] \<or> hd k \<noteq> 0x30)
      \<and> indexValue k \<le> 4294967294)"

definition forIn :: "registry \<Rightarrow> registry" where
  "forIn r =
     sort_key (\<lambda>(k, h). indexValue k) (filter (\<lambda>(k, h). isArrayIndex k) r)
     @ filter (\<lambda>(k, h). \<not> isArrayIndex k) r"

datatype hooks_arg = HooksArray "hook list" | HooksRecord registry

definition normalizedHooks :: "jsstring \<Rightarrow> hooks_arg \<Rightarrow> registry" where
  "normalizedHooks cwd hooks =
     (case hooks of
        HooksArray a \<Rightarrow>
          foldl (\<lambda>acumulador atual. assign acumulador (GEN_ID cwd (filePath atual) (FlagBool True)) atual) [] a
      | HooksRecord r \<Rightarrow> r)"

subsection \<open>resolveId\<close>

datatype resolved = Resolved (resolvedId: jsstring) (injectedLoader: jsstring)

definition effectiveImporter :: "jsstring \<Rightarrow> registry \<Rightarrow> jsstring option \<Rightarrow> jsstring option" where
  "effectiveImporter cwd hooks importer =
     (if truthy importer \<and> INJECTIONHOOKS_REGEX_test (the importer) then
        (case find (\<lambda>h. normalize (GEN_ID cwd (filePath h) (FlagBool True)) = normalize (the importer))
                (map snd (forIn hooks)) of
           Some hookMatch \<Rightarrow> Some (filePath hookMatch)
         | None \<Rightarrow> importer)
      else importer)"

definition resolveId :: "jsstring \<Rightarrow> registry \<Rightarrow> jsstring \<Rightarrow> jsstring option \<Rightarrow> resolved option" where
  "resolveId cwd hooks source importer =
     (case fasterSimpleResolveAbsolutePath cwd (slashes (normalize source))
             (effectiveImporter cwd hooks importer) of
        Code _ \<Rightarrow> None
      | Path normalizedSource \<Rightarrow>
          (case find (\<lambda>(k, hook). isMatch (Object hook) normalizedSource) (forIn hooks) of
             None \<Rightarrow> None
           | Some (k, hook) \<Rightarrow>
               Some (Resolved (GEN_ID cwd (filePath hook) (FlagBool True))
                       (drop 1 (extname normalizedSource)))))"

subsection \<open>load: the marker\<close>

definition getCommentSyntax :: "jsstring \<Rightarrow> jsstring \<times> jsstring" where
  "getCommentSyntax p =
     (let extension = toLowerCase (extname p) in
      if extension \<in> set (map js [''.scss'', ''.css'', ''.ts'', ''.tsx'', ''.js'', ''.jsx''])
        then (js ''//'', [])
      else if extension \<in> set (map js [''.html'', ''.htm'']) then (js ''<!--'', js ''-->'')
      else if extension \<in> set (map js [''.yaml'', ''.yml'', ''.toml'']) then (js ''#'', [])
      else (js ''/*'', js ''*/''))"

text \<open>\<^verbatim>\<open>_EscapeRegExp\<close>: a backslash before each of \<^verbatim>\<open>. * + ? ^ $ { } ( ) | [ ] \\<close>.\<close>

definition EscapeRegExp :: "jsstring \<Rightarrow> jsstring" where
  "EscapeRegExp s =
     concat (map (\<lambda>c. if c \<in> set (js ''.*+?^${}()|[]'') \<or> c = BACKSLASH then [BACKSLASH, c] else [c]) s)"

text \<open>
  The marker expression is compiled from \<^verbatim>\<open>INJECTION_BLOCK_REGEX\<close> with the escaped comment
  start in the place of the bars, under the \<^verbatim>\<open>i\<close> flag:
  \<^verbatim>\<open>(\n|^)\s*START\s*\{generate\-global\-css\-vars\.ts[^\n]+(\n|$)\<close>, where \<open>START\<close> is
  matched literally, which is what the escaping is for. \<open>markerTail\<close> matches all that
  follows the first group at the head of a string and gives the number of characters
  matched and the second group. Neither the comment start nor the brace is white space,
  and \<^verbatim>\<open>[^\n]+\<close> stops only where the second group matches, so no shorter choice of a
  greedy repetition can succeed where the longest fails.
\<close>

definition SENTINEL :: jsstring where
  "SENTINEL = js ''{generate-global-css-vars.ts''"

definition markerTail :: "jsstring \<Rightarrow> jsstring \<Rightarrow> (nat \<times> jsstring) option" where
  "markerTail cmt_start s =
     (let r1 = dropWhile isWhiteSpace s in
      if \<not> startsWithIgnoreCase r1 cmt_start then None
      else
        let r2 = dropWhile isWhiteSpace (drop (length cmt_start) r1) in
        if \<not> startsWithIgnoreCase r2 SENTINEL then None
        else
          let r3 = drop (length SENTINEL) r2;
              r4 = dropWhile (\<lambda>c. c \<noteq> NEWLINE) r3
          in if takeWhile (\<lambda>c. c \<noteq> NEWLINE) r3 = [] then None
             else (case r4 of
                     [] \<Rightarrow> Some (length s, [])
                   | c # r5 \<Rightarrow> Some (length s - length r5, [NEWLINE])))"

text \<open>
  The first match, from the left: the text before it, the matched text, the two groups
  and the text after it. At each position the first group tries the line feed first,
  then, at position 0 only, the beginning of the string.
\<close>

fun markerExec ::
  "jsstring \<Rightarrow> bool \<Rightarrow> jsstring \<Rightarrow> (jsstring \<times> jsstring \<times> jsstring list \<times> jsstring) option" where
  "markerExec cmt_start atStart [] = None"
| "markerExec cmt_start atStart (c # cs) =
     (case (if c = NEWLINE then markerTail cmt_start cs else None) of
        Some (n, g2) \<Rightarrow> Some ([], take (Suc n) (c # cs), [[NEWLINE], g2], drop (Suc n) (c # cs))
      | None \<Rightarrow>
          (case (if atStart then markerTail cmt_start (c # cs) else None) of
             Some (n, g2) \<Rightarrow> Some ([], take n (c # cs), [[], g2], drop n (c # cs))
           | None \<Rightarrow>
               map_option (\<lambda>(pre, m, caps, post). (c # pre, m, caps, post))
                 (markerExec cmt_start False cs)))"

text \<open>
  \<^verbatim>\<open>String.prototype.replace\<close> with a string as replacement expands the dollar patterns
  of the replacement (GetSubstitution): \<^verbatim>\<open>$$\<close> is a dollar sign, \<^verbatim>\<open>$&\<close> the matched text,
  \<^verbatim>\<open>$`\<close> the text before the match, \<^verbatim>\<open>$'\<close> the text after it, \<^verbatim>\<open>$n\<close> and \<^verbatim>\<open>$nn\<close> the
  group of that number when there is one (two digits first, then one). Every other
  dollar sign stands for itself. The expression has no named groups.
\<close>

fun getSubstitution ::
  "jsstring \<Rightarrow> jsstring \<Rightarrow> jsstring list \<Rightarrow> jsstring \<Rightarrow> jsstring \<Rightarrow> jsstring" where
  "getSubstitution m pre caps post [] = []"
| "getSubstitution m pre caps post [c] = [c]"
| "getSubstitution m pre caps post (c # d # r) =
     (if c \<noteq> DOLLAR then c # getSubstitution m pre caps post (d # r)
      else if d = DOLLAR then DOLLAR # getSubstitution m pre caps post r
      else if d = 0x26 then m @ getSubstitution m pre caps post r
      else if d = 0x60 then pre @ getSubstitution m pre caps post r
      else if d = 0x27 then post @ getSubstitution m pre caps post r
      else if isDigit d then
        (case r of
           [] \<Rightarrow>
             (if 1 \<le> digitValue d \<and> digitValue d \<le> length caps
              then caps ! (digitValue d - 1) else [c, d])
         | e # r' \<Rightarrow>
             if isDigit e \<and> 10 * digitValue d + digitValue e \<le> length caps then
               (if 1 \<le> 10 * digitValue d + digitValue e
                then caps ! (10 * digitValue d + digitValue e - 1)
                       @ getSubstitution m pre caps post r'
                else c # d # e # getSubstitution m pre caps post r')
             else if 1 \<le> digitValue d \<and> digitValue d \<le> length caps then
               caps ! (digitValue d - 1) @ getSubstitution m pre caps post (e # r')
             else c # d # getSubstitution m pre caps post (e # r'))
      else c # getSubstitution m pre caps post (d # r))"

definition replaceMarker :: "jsstring \<Rightarrow> jsstring \<Rightarrow> jsstring \<Rightarrow> jsstring" where
  "replaceMarker cmt_start originalCode replacement =
     (case markerExec cmt_start True originalCode of
        None \<Rightarrow> originalCode
      | Some (pre, m, caps, post) \<Rightarrow>
          pre @ getSubstitution m pre caps post replacement @ post)"

subsection \<open>load: the relative imports\<close>

text \<open>
  \<^verbatim>\<open>RELATIVE_IMPORT_REGEX = /(?:@use|@import)\s+("|')(\.\.?\/.*?)\1/gi\<close> at the head of a
  string: the length of the match, the quote and the path. The lazy \<^verbatim>\<open>.*?\<close> ends at the
  first return of the quote, and no line terminator may come before it.
\<close>

definition importMatchAt :: "jsstring \<Rightarrow> (nat \<times> code_unit \<times> jsstring) option" where
  "importMatchAt s =
     (let k = (if startsWithIgnoreCase s (js ''@use'') then 4
               else if startsWithIgnoreCase s (js ''@import'') then 7 else 0);
          r1 = drop k s;
          r2 = dropWhile isWhiteSpace r1
      in if k = 0 \<or> length r2 = length r1 then None
         else
           (case r2 of
              [] \<Rightarrow> None
            | q # r3 \<Rightarrow>
                let dots = (if startsWith r3 (js ''../'') then 3
                            else if startsWith r3 (js ''./'') then 2 else 0);
                    body = takeWhile (\<lambda>c. c \<noteq> q \<and> \<not> isLineTerminator c) (drop dots r3);
                    r4 = drop (dots + length body) r3
                in if (q \<noteq> 0x22 \<and> q \<noteq> 0x27) \<or> dots = 0 then None
                   else
                     (case r4 of
                        [] \<Rightarrow> None
                      | c # r5 \<Rightarrow>
                          if c = q then Some (length s - length r5, q, take (dots + length body) r3)
                          else None)))"

text \<open>
  The replacement function of \<open>load\<close>: the path is resolved with the hook's real file as
  importer; a resolved path gives the keyword, a space and \<^verbatim>\<open>GEN_ID(absolutePath, 1)\<close> in
  single quotes, anything else the statement as it was.
\<close>

definition rewriteImport :: "jsstring \<Rightarrow> jsstring \<Rightarrow> jsstring \<Rightarrow> jsstring \<Rightarrow> jsstring" where
  "rewriteImport cwd hookFilePath m relativePath =
     (case fasterSimpleResolveAbsolutePath cwd relativePath (Some hookFilePath) of
        Path absolutePath \<Rightarrow>
          (if startsWith m (js ''@use'') then js ''@use'' else js ''@import'')
          @ [0x20, 0x27] @ GEN_ID cwd absolutePath (FlagNumber 1) @ [0x27]
      | Code _ \<Rightarrow> m)"

text \<open>
  The global replace: matches are looked for from the left, each one after the end of
  the one before. (A match has at least the keyword, so \<open>n - 1\<close> is the number of
  characters of the match after its first.)
\<close>

function rewriteImports :: "jsstring \<Rightarrow> jsstring \<Rightarrow> jsstring \<Rightarrow> jsstring" where
  "rewriteImports cwd hookFilePath [] = []"
| "rewriteImports cwd hookFilePath (c # cs) =
     (case importMatchAt (c # cs) of
        None \<Rightarrow> c # rewriteImports cwd hookFilePath cs
      | Some (n, q, relativePath) \<Rightarrow>
          rewriteImport cwd hookFilePath (take n (c # cs)) relativePath
          @ rewriteImports cwd hookFilePath (drop (n - 1) cs))"
  by pat_completeness auto
termination
  by (relation "measure (\<lambda>(cwd, f, s). length s)") auto

subsection \<open>load\<close>

text \<open>
  The file system is a map from the path given to \<^verbatim>\<open>fs.readFileSync\<close> to the text of
  the file; reading a file that is not there throws. \<open>load\<close> returns the text or
  \<^verbatim>\<open>null\<close> (\<open>None\<close>).
\<close>

datatype io_error = ReadError

type_synonym filesystem = "jsstring \<Rightarrow> jsstring option"

definition injectionBlock :: "jsstring \<Rightarrow> jsstring \<Rightarrow> jsstring \<Rightarrow> jsstring" where
  "injectionBlock cmt_start cmt_end content =
     (let startComment = NEWLINE # cmt_start @ js ''[START INJECTION]: generate-global-css-vars.ts:''
                           @ cmt_end @ [NEWLINE];
          endComment = NEWLINE # cmt_start @ js ''[END INJECTION]: generate-global-css-vars.ts.''
                           @ cmt_end @ [NEWLINE]
      in NEWLINE # startComment @ NEWLINE # content @ NEWLINE # endComment @ [NEWLINE])"

definition load :: "jsstring \<Rightarrow> filesystem \<Rightarrow> registry \<Rightarrow> jsstring \<Rightarrow> io_error + jsstring option" where
  "load cwd fs hooks ident =
     (if \<not> INJECTIONHOOKS_REGEX_test ident then Inr None
      else
        (case map_of hooks ident of
           None \<Rightarrow> Inr None
         | Some hook \<Rightarrow>
             (case fs (filePath hook) of
                None \<Rightarrow> Inl ReadError
              | Some originalCode \<Rightarrow>
                  (case getCommentSyntax (filePath hook) of
                     (cmt_start, cmt_end) \<Rightarrow>
                       Inr (Some (rewriteImports cwd (filePath hook)
                         (replaceMarker cmt_start originalCode
                            (injectionBlock cmt_start cmt_end (getContent hook ())))))))))"

section \<open>The injection engine (the simpler implementation)\<close>

definition GEN_ID_simple :: "jsstring \<Rightarrow> jsstring" where
  "GEN_ID_simple f = js ''@InjectionHooks_ts:'' @ slashes (normalize f)"

text \<open>Here the result is \<^verbatim>\<open>string | null\<close>.\<close>

definition fasterSimpleResolveAbsolutePath_simple ::
  "jsstring \<Rightarrow> jsstring \<Rightarrow> jsstring option \<Rightarrow> jsstring option" where
  "fasterSimpleResolveAbsolutePath_simple cwd source importer =
     (let normalizedSource = slashes (normalize source) in
      if isAbsolute normalizedSource then Some normalizedSource
      else if urlSchemeTest normalizedSource then None
      else if startsWith normalizedSource (js ''@'')
              \<and> \<not> startsWith normalizedSource (js ''./'')
              \<and> \<not> startsWith normalizedSource (js ''../'') then None
      else if \<not> startsWith normalizedSource (js ''.'')
              \<and> \<not> isAbsolute normalizedSource
              \<and> truthy importer then None
      else if truthy importer
              \<and> (startsWith normalizedSource (js ''./'')
                   \<or> startsWith normalizedSource (js ''../'')
                   \<or> startsWith normalizedSource (js ''file://'')) then
        (let importerDir = dirname (the importer);
             fullPath = resolve cwd [importerDir, normalizedSource]
         in Some (slashes (normalize fullPath)))
      else None)"

definition normalizedHooks_simple :: "hooks_arg \<Rightarrow> registry" where
  "normalizedHooks_simple hooks =
     (case hooks of
        HooksArray a \<Rightarrow>
          foldl (\<lambda>acumulador atual. assign acumulador (GEN_ID_simple (filePath atual)) atual) [] a
      | HooksRecord r \<Rightarrow> r)"

definition resolveId_simple :: "jsstring \<Rightarrow> registry \<Rightarrow> jsstring \<Rightarrow> jsstring option \<Rightarrow> resolved option" where
  "resolveId_simple cwd hooks source importer =
     (case fasterSimpleResolveAbsolutePath_simple cwd (slashes (normalize source)) importer of
        None \<Rightarrow> None
      | Some normalizedSource \<Rightarrow>
          if normalizedSource = [] then None
          else
            (case find (\<lambda>(k, hook). isMatch (Object hook) normalizedSource) (forIn hooks) of
               None \<Rightarrow> None
             | Some (k, hook) \<Rightarrow>
                 Some (Resolved (GEN_ID_simple (filePath hook))
                         (drop 1 (extname normalizedSource)))))"

definition load_simple :: "filesystem \<Rightarrow> registry \<Rightarrow> jsstring \<Rightarrow> io_error + jsstring option" where
  "load_simple fs hooks ident =
     (if \<not> INJECTIONHOOKS_REGEX_test ident then Inr None
      else
        (case map_of hooks ident of
           None \<Rightarrow> Inr None
         | Some hook \<Rightarrow>
             (case fs (filePath hook) of
                None \<Rightarrow> Inl ReadError
              | Some originalCode \<Rightarrow>
                  (case getCommentSyntax (filePath hook) of
                     (cmt_start, cmt_end) \<Rightarrow>
                       Inr (Some (replaceMarker cmt_start originalCode
                            (injectionBlock cmt_start cmt_end (getContent hook ()))))))))"

section \<open>Properties of convertBase\<close>

subsection \<open>The validation steps\<close>

lemma hasDuplicates_iff: "hasDuplicates arr \<longleftrightarrow> \<not> distinct arr"
  unfolding hasDuplicates_def using distinct_card card_distinct by blast

lemma fromMap_Some_iff:
  assumes "distinct syms"
  shows "fromMap syms s = Some i \<longleftrightarrow> i < length syms \<and> syms ! i = s"
proof -
  have d: "distinct (map fst (rev (zip syms [0 ..< length syms])))"
    using assms by (simp add: rev_map [symmetric])
  have "fromMap syms s = Some i \<longleftrightarrow> (s, i) \<in> set (zip syms [0 ..< length syms])"
    unfolding fromMap_def using map_of_eq_Some_iff [OF d] by simp
  also have "\<dots> \<longleftrightarrow> i < length syms \<and> syms ! i = s"
    by (auto simp: in_set_zip)
  finally show ?thesis .
qed

lemma fromMap_None_iff: "fromMap syms s = None \<longleftrightarrow> s \<notin> set syms"
  unfolding fromMap_def by (simp add: map_of_eq_None_iff image_iff set_zip in_set_conv_nth) force

lemma fromMap_nth: "distinct syms \<Longrightarrow> i < length syms \<Longrightarrow> fromMap syms (syms ! i) = Some i"
  by (simp add: fromMap_Some_iff)

lemma validateValue_cases:
  "validateValue m chs = (if \<forall>ch\<in>set chs. m ch \<noteq> None then Inr () else Inl Error)"
  by (induction chs) auto

lemma accumulate_not_TypeError:
  "\<forall>ch\<in>set chs. m ch \<noteq> None \<Longrightarrow> \<exists>n. accumulate m b k chs = Inr n"
  by (induction chs arbitrary: k) auto

lemma accumulate_append:
  "accumulate m b k (ds @ es) =
     (case accumulate m b k ds of Inl e \<Rightarrow> Inl e | Inr v \<Rightarrow> accumulate m b v es)"
  by (induction ds arbitrary: k) (auto split: option.splits)

lemma codePoints_scalar_append:
  "isScalar s \<Longrightarrow> codePoints (s @ r) = s # codePoints r"
  by (cases r) (auto simp: isScalar_def split: list.splits)

lemma codePoints_concat:
  "\<forall>s\<in>set ds. isScalar s \<Longrightarrow> codePoints (concat ds) = ds"
  by (induction ds) (auto simp: codePoints_scalar_append)

subsection \<open>The output loop: termination, digits and their value\<close>

lemma toDigits_error: "toDigits bs n acc = Some (Inl e) \<Longrightarrow> e = RangeError"
  by (rule toDigits.raw_induct[where P = "\<lambda>bs n acc r. \<forall>e. r = Inl e \<longrightarrow> e = RangeError", rule_format])
     (auto split: if_splits)

lemma accumulate_mono:
  "accumulate m b k ds = Inr n \<Longrightarrow> 0 \<le> k \<Longrightarrow> 1 \<le> b \<Longrightarrow> k \<le> n"
proof (induction ds arbitrary: k)
  case Nil then show ?case by simp
next
  case (Cons d ds)
  then obtain i where i: "m d = Some i" and r: "accumulate m b (k * b + int i) ds = Inr n"
    by (auto split: option.splits)
  have "k \<le> k * b" using Cons.prems by (simp add: mult_le_cancel_left1)
  then have "k \<le> k * b + int i" by simp
  moreover have "k * b + int i \<le> n"
    using Cons.IH [OF r] Cons.prems by (simp add: add_nonneg_nonneg)
  ultimately show ?case by simp
qed

lemma toDigits_digits:
  assumes "distinct bs" "2 \<le> length bs"
  shows "\<exists>ds. toDigits bs (int n) acc = Some (Inr (concat ds @ acc))
            \<and> set ds \<subseteq> set bs
            \<and> (0 < n \<longrightarrow> ds \<noteq> [] \<and> hd ds \<noteq> bs ! 0)
            \<and> (n = 0 \<longrightarrow> ds = [])
            \<and> (\<forall>k. accumulate (fromMap bs) (int (length bs)) k ds
                   = Inr (k * int (length bs) ^ length ds + int n))"
proof (induction n arbitrary: acc rule: less_induct)
  case (less n)
  let ?b = "length bs"
  show ?case
  proof (cases "n = 0")
    case True
    then show ?thesis by (intro exI [of _ "[]"]) (simp add: toDigits.simps)
  next
    case False
    let ?d = "bs ! (n mod ?b)"
    have lt: "n div ?b < n" using False assms(2) by (intro div_less_dividend) linarith+
    have pos: "0 < ?b" using assms(2) by linarith
    have dlt: "n mod ?b < ?b" by (rule mod_less_divisor [OF pos])
    from less.IH [OF lt, of "?d @ acc"]
    obtain ds where all: "toDigits bs (int (n div ?b)) (?d @ acc) = Some (Inr (concat ds @ ?d @ acc))
      \<and> set ds \<subseteq> set bs \<and> (0 < n div ?b \<longrightarrow> ds \<noteq> [] \<and> hd ds \<noteq> bs ! 0) \<and> (n div ?b = 0 \<longrightarrow> ds = [])
      \<and> (\<forall>k. accumulate (fromMap bs) (int ?b) k ds = Inr (k * int ?b ^ length ds + int (n div ?b)))"
      by (rule exE)
    have ds: "toDigits bs (int (n div ?b)) (?d @ acc) = Some (Inr (concat ds @ ?d @ acc))"
      "set ds \<subseteq> set bs" "0 < n div ?b \<longrightarrow> ds \<noteq> [] \<and> hd ds \<noteq> bs ! 0" "n div ?b = 0 \<longrightarrow> ds = []"
      "\<forall>k. accumulate (fromMap bs) (int ?b) k ds = Inr (k * int ?b ^ length ds + int (n div ?b))"
      using all by simp_all
    have step: "toDigits bs (int n) acc = toDigits bs (int (n div ?b)) (?d @ acc)"
    proof -
      have ne: "bs \<noteq> []" using assms(2) by auto
      show ?thesis using False ne
        by (subst toDigits.simps) (simp add: zdiv_int [symmetric] zmod_int [symmetric] del: of_nat_div of_nat_mod)
    qed
    have hd: "hd (ds @ [?d]) \<noteq> bs ! 0"
    proof (cases "n div ?b = 0")
      case True
      then have "n < ?b" using assms(2) by (auto simp: div_eq_0_iff)
      then have "n mod ?b \<noteq> 0" using False by simp
      then have "?d \<noteq> bs ! 0" unfolding nth_eq_iff_index_eq [OF assms(1) dlt pos] .
      then show ?thesis using True ds(4) by simp
    next
      case False
      then show ?thesis using ds(3) by simp
    qed
    have acc: "accumulate (fromMap bs) (int ?b) k (ds @ [?d])
        = Inr (k * int ?b ^ length (ds @ [?d]) + int n)" for k
    proof -
      have "(k * int ?b ^ length ds + int (n div ?b)) * int ?b + int (n mod ?b)
           = k * int ?b ^ length (ds @ [?d]) + (int (n div ?b) * int ?b + int (n mod ?b))"
        by (simp add: algebra_simps)
      also have "int (n div ?b) * int ?b + int (n mod ?b) = int n"
        by (metis div_mult_mod_eq of_nat_add of_nat_mult)
      finally show ?thesis
        using ds(5) assms(1) dlt by (simp add: accumulate_append fromMap_nth)
    qed
    show ?thesis
      apply (rule exI [of _ "ds @ [?d]"])
      using step ds(1,2) hd acc dlt False by (auto simp: nth_mem)
  qed
qed

lemma accumulate_leading_zero:
  "m z = Some 0 \<Longrightarrow> accumulate m b 0 (dropWhile (\<lambda>d. d = z) ds) = accumulate m b 0 ds"
  by (induction ds) auto

lemma accumulate_positive:
  assumes "distinct as" "d \<in> set as" "d \<noteq> as ! 0"
    and "accumulate (fromMap as) (int (length as)) 0 (d # ds) = Inr n"
  shows "0 < n"
proof -
  obtain i where i: "fromMap as d = Some i" and r: "accumulate (fromMap as) (int (length as)) (int i) ds = Inr n"
    using assms(4) by (auto split: option.splits)
  have "i \<noteq> 0" using i assms(1,3) by (auto simp: fromMap_Some_iff intro: ccontr)
  moreover have "1 \<le> int (length as)" using assms(2) by (cases as) auto
  ultimately show ?thesis using accumulate_mono [OF r] by simp
qed

lemma toDigits_inverse:
  assumes "distinct as" "set ds \<subseteq> set as" "ds \<noteq> []" "hd ds \<noteq> as ! 0"
    and "accumulate (fromMap as) (int (length as)) 0 ds = Inr n"
  shows "toDigits as n acc = Some (Inr (concat ds @ acc))"
  using assms(2-5)
proof (induction ds arbitrary: n acc rule: rev_induct)
  case Nil
  then show ?case by simp
next
  case (snoc d ds)
  let ?b = "length as"
  obtain n' where n': "accumulate (fromMap as) (int ?b) 0 ds = Inr n'"
    using snoc.prems(1) accumulate_not_TypeError [of ds "fromMap as" "int ?b" 0]
    by (auto simp: fromMap_None_iff subset_iff)
  obtain i where i: "fromMap as d = Some i" and n: "n = n' * int ?b + int i"
    using snoc.prems(4) n' by (auto simp: accumulate_append split: option.splits)
  have il: "i < ?b" and di: "as ! i = d" using i assms(1) by (auto simp: fromMap_Some_iff)
  have n'0: "0 \<le> n'" using accumulate_mono [OF n'] il by simp
  have ne: "as \<noteq> []" using il by auto
  have npos: "0 < n"
  proof (cases ds)
    case Nil
    then have "i \<noteq> 0" using snoc.prems(3) di by (auto intro: ccontr)
    then show ?thesis using n n' Nil by simp
  next
    case (Cons e es)
    then have "0 < n'"
      using accumulate_positive [OF assms(1), of e es n'] snoc.prems(1,3) n' by auto
    moreover have "0 < int ?b" using ne by simp
    ultimately have "0 < n' * int ?b" by (rule mult_pos_pos)
    then show ?thesis using n by simp
  qed
  have dv: "n div int ?b = n'" and md: "n mod int ?b = int i"
    using n il ne by simp_all
  have step: "toDigits as n acc = toDigits as n' (d @ acc)"
    using npos ne dv md di by (subst toDigits.simps) simp
  show ?case
  proof (cases ds)
    case Nil
    then have "n' = 0" using n' by simp
    then show ?thesis using step Nil by (simp add: toDigits.simps)
  next
    case (Cons e es)
    then have "toDigits as n' (d @ acc) = Some (Inr (concat ds @ d @ acc))"
      using snoc.IH [of n' "d @ acc"] snoc.prems(1,3) n' by auto
    then show ?thesis using step by simp
  qed
qed

lemma convertBase_valid:
  assumes "normalizeBase A = Inr as" "normalizeBase B = Inr bs" "distinct as" "distinct bs"
    and "set (codePoints v) \<subseteq> set as"
    and "accumulate (fromMap as) (int (length as)) 0 (codePoints v) = Inr n"
  shows "convertBase v A B =
     (if n = 0 then (case bs of [] \<Rightarrow> Some (Inr Undefined) | s # _ \<Rightarrow> Some (Inr (Str s)))
      else (case toDigits bs n [] of None \<Rightarrow> None | Some (Inl e) \<Rightarrow> Some (Inl e)
            | Some (Inr r) \<Rightarrow> Some (Inr (Str r))))"
proof -
  have "validateValue (fromMap as) (codePoints v) = Inr ()"
    using assms(5) by (auto simp: validateValue_cases fromMap_None_iff)
  then show ?thesis
    using assms(1-4,6) by (simp add: convertBase_def hasDuplicates_iff)
qed

lemma accumulate_zero_iff:
  assumes "distinct as" "set ds \<subseteq> set as" "as \<noteq> []"
    and "accumulate (fromMap as) (int (length as)) 0 ds = Inr n"
  shows "n = 0 \<longleftrightarrow> dropWhile (\<lambda>d. d = hd as) ds = []"
proof -
  let ?z = "hd as" and ?r = "dropWhile (\<lambda>d. d = hd as) ds"
  have z: "fromMap as ?z = Some 0"
    using assms(1,3) fromMap_nth [of as 0] by (simp add: hd_conv_nth)
  have r: "accumulate (fromMap as) (int (length as)) 0 ?r = Inr n"
    using accumulate_leading_zero [of "fromMap as" ?z, OF z] assms(4) by simp
  show ?thesis
  proof (cases ?r)
    case Nil
    have "accumulate (fromMap as) (int (length as)) 0 [] = Inr n"
      using r by (simp only: Nil)
    then show ?thesis using Nil by simp
  next
    case (Cons e es)
    have "e \<noteq> ?z" using Cons hd_dropWhile [of "\<lambda>d. d = hd as" ds] by auto
    moreover have "e \<in> set as"
      using Cons assms(2) set_dropWhileD [of e "\<lambda>d. d = hd as" ds] by auto
    ultimately have "0 < n"
      using accumulate_positive [OF assms(1), of e es n] r Cons assms(3) by (simp add: hd_conv_nth)
    then show ?thesis using Cons by simp
  qed
qed

lemma toDigits_unary_diverges:
  "toDigits bs n acc = Some r \<Longrightarrow> length bs = 1 \<longrightarrow> n \<le> 0"
  by (rule toDigits.raw_induct[where P = "\<lambda>bs n acc r. length bs = 1 \<longrightarrow> n \<le> 0"])
     (fastforce split: if_splits)+

lemmas base_ev = js_def normalizeBase_def isLeadSurrogate_def isTrailSurrogate_def
   hasDuplicates_iff fromMap_def toDigits.simps isScalar_def stripLeadingZeros_def


subsection \<open>The examples of the documentation\<close>

lemma convertBase_examples:
  "convertBase (js ''FF'') (BaseString (js ''0123456789ABCDEF'')) (BaseString (js ''01''))
     = Some (Inr (Str (js ''11111111'')))
   \<and> convertBase (js ''1010'') (BaseString (js ''01'')) (BaseString (js ''0123456789''))
     = Some (Inr (Str (js ''10'')))
   \<and> convertBase (js ''0'') (BaseString (js ''0123456789'')) (BaseString (js ''01''))
     = Some (Inr (Str (js ''0'')))"
  by (simp add: convertBase_def base_ev)

subsection \<open>The round trip\<close>

text \<open>
  Claim C1, as amended. Let A be a non-empty alphabet and B an alphabet of at least two
  symbols, each of unique symbols, the symbols of B each a single well-formed code point,
  and let every code point of the value v be a symbol of A. Then \<open>convertBase v A B\<close>
  returns a string w, and \<open>convertBase w B A\<close> returns v with its leading zero symbols
  dropped (the single zero symbol when nothing else remains); a value of zero symbols only
  converts to the first symbol of B.
\<close>

theorem convertBase_round_trip:
  assumes "normalizeBase A = Inr as" "normalizeBase B = Inr bs"
    and "distinct as" "distinct bs"
    and "as \<noteq> []" "2 \<le> length bs"
    and "\<forall>s\<in>set bs. isScalar s"
    and "set (codePoints v) \<subseteq> set as"
  shows "\<exists>w. convertBase v A B = Some (Inr (Str w))
           \<and> convertBase w B A = Some (Inr (Str (concat (stripLeadingZeros (hd as) (codePoints v)))))
           \<and> ((\<forall>d\<in>set (codePoints v). d = hd as) \<longrightarrow> w = hd bs)"
proof -
  let ?ds = "codePoints v" and ?z = "hd as"
  let ?r = "dropWhile (\<lambda>d. d = ?z) ?ds"
  obtain n where n: "accumulate (fromMap as) (int (length as)) 0 ?ds = Inr n"
    using assms(8) accumulate_not_TypeError [of ?ds "fromMap as" "int (length as)" 0]
    by (auto simp: fromMap_None_iff subset_iff)
  have n0: "0 \<le> n" using accumulate_mono [OF n] assms(5) by (cases as) auto
  have zero: "n = 0 \<longleftrightarrow> ?r = []"
    by (rule accumulate_zero_iff [OF assms(3,8,5) n])
  have fwd: "convertBase v A B =
     (if n = 0 then (case bs of [] \<Rightarrow> Some (Inr Undefined) | s # _ \<Rightarrow> Some (Inr (Str s)))
      else (case toDigits bs n [] of None \<Rightarrow> None | Some (Inl e) \<Rightarrow> Some (Inl e)
            | Some (Inr r) \<Rightarrow> Some (Inr (Str r))))"
    by (rule convertBase_valid [OF assms(1,2,3,4,8) n])
  have bne: "bs \<noteq> []" using assms(6) by auto
  have zb: "fromMap bs (hd bs) = Some 0"
    using assms(4) bne fromMap_nth [of bs 0] by (simp add: hd_conv_nth)
  from toDigits_digits [OF assms(4,6), of "nat n" "[]"]
  obtain es where all: "toDigits bs (int (nat n)) [] = Some (Inr (concat es @ []))
            \<and> set es \<subseteq> set bs
            \<and> (0 < nat n \<longrightarrow> es \<noteq> [] \<and> hd es \<noteq> bs ! 0)
            \<and> (nat n = 0 \<longrightarrow> es = [])
            \<and> (\<forall>k. accumulate (fromMap bs) (int (length bs)) k es
                   = Inr (k * int (length bs) ^ length es + int (nat n)))"
    by (rule exE)
  have es: "toDigits bs n [] = Some (Inr (concat es))" "set es \<subseteq> set bs"
    "accumulate (fromMap bs) (int (length bs)) 0 es = Inr n"
    using all n0 by simp_all
  show ?thesis
  proof (cases "n = 0")
    case True
    let ?w = "hd bs"
    have w: "convertBase v A B = Some (Inr (Str ?w))"
      using fwd True bne by (cases bs) auto
    have cp: "codePoints ?w = [?w]"
      using codePoints_concat [of "[?w]"] assms(7) bne by simp
    have "accumulate (fromMap bs) (int (length bs)) 0 (codePoints ?w) = Inr 0"
      using cp zb by simp
    then have "convertBase ?w B A = Some (Inr (Str ?z))"
      using convertBase_valid [OF assms(2,1,4,3), of ?w 0] cp bne assms(5)
      by (cases as) auto
    moreover have "stripLeadingZeros ?z ?ds = [?z]"
    proof -
      have rn: "?r = []" using zero True by blast
      show ?thesis unfolding stripLeadingZeros_def by (simp only: rn list.simps)
    qed
    ultimately show ?thesis using w by auto
  next
    case False
    let ?w = "concat es"
    have w: "convertBase v A B = Some (Inr (Str ?w))"
      using fwd False es(1) by simp
    have cp: "codePoints ?w = es"
      using codePoints_concat [of es] assms(7) es(2) by auto
    have bwd: "convertBase ?w B A =
       (case toDigits as n [] of None \<Rightarrow> None | Some (Inl e) \<Rightarrow> Some (Inl e)
            | Some (Inr r) \<Rightarrow> Some (Inr (Str r)))"
      using convertBase_valid [OF assms(2,1,4,3), of ?w n] cp es(2,3) False by simp
    obtain e r where r: "?r = e # r" using zero False by (cases ?r) auto
    have hd: "hd ?r \<noteq> as ! 0"
      using r hd_dropWhile [of "\<lambda>d. d = ?z" ?ds] assms(5) by (auto simp: hd_conv_nth)
    have sub: "set ?r \<subseteq> set as"
      using assms(8) set_dropWhileD [of _ "\<lambda>d. d = ?z" ?ds] by blast
    have zA: "fromMap as ?z = Some 0"
      using assms(3,5) fromMap_nth [of as 0] by (simp add: hd_conv_nth)
    have accr: "accumulate (fromMap as) (int (length as)) 0 ?r = Inr n"
      using accumulate_leading_zero [of "fromMap as" ?z, OF zA] n by simp
    have "toDigits as n [] = Some (Inr (concat ?r))"
      using toDigits_inverse [OF assms(3) sub _ hd accr, of "[]"] r by simp
    moreover have "stripLeadingZeros ?z ?ds = ?r"
      unfolding stripLeadingZeros_def by (simp only: r list.simps)
    moreover have "\<not> (\<forall>d\<in>set ?ds. d = ?z)"
    proof
      assume "\<forall>d\<in>set ?ds. d = ?z"
      then have "?r = []" by (simp add: dropWhile_eq_Nil_conv)
      then show False using zero False by blast
    qed
    ultimately show ?thesis using w bwd by auto
  qed
qed

text \<open>
  The theorem at decimal \<open>00255\<close>, converted to hexadecimal and back.
\<close>

theorem convertBase_round_trip_witness:
  "convertBase (js ''00255'') (BaseString (js ''0123456789'')) (BaseString (js ''0123456789ABCDEF''))
     = Some (Inr (Str (js ''FF'')))
   \<and> convertBase (js ''FF'') (BaseString (js ''0123456789ABCDEF'')) (BaseString (js ''0123456789''))
     = Some (Inr (Str (js ''255'')))"
proof -
  let ?A = "BaseString (js ''0123456789'')" and ?B = "BaseString (js ''0123456789ABCDEF'')"
  have f: "convertBase (js ''00255'') ?A ?B = Some (Inr (Str (js ''FF'')))"
    by (simp add: convertBase_def base_ev)
  have "\<exists>w. convertBase (js ''00255'') ?A ?B = Some (Inr (Str w))
           \<and> convertBase w ?B ?A = Some (Inr (Str (concat (stripLeadingZeros (hd (codePoints (js ''0123456789''))) (codePoints (js ''00255''))))))
           \<and> ((\<forall>d\<in>set (codePoints (js ''00255'')). d = hd (codePoints (js ''0123456789''))) \<longrightarrow> w = hd (codePoints (js ''0123456789ABCDEF'')))"
    by (rule convertBase_round_trip [where as = "codePoints (js ''0123456789'')" and bs = "codePoints (js ''0123456789ABCDEF'')"])
       (simp_all add: base_ev)
  then show ?thesis using f by (simp add: base_ev)
qed

text \<open>
  Claim C1 as stated quantifies over all alphabets of unique symbols, and fails there:
  a one-symbol destination alphabet never returns on a non-zero value; with an empty
  source alphabet the way back returns \<^verbatim>\<open>undefined\<close>; an array alphabet whose symbols
  are longer than one code point, or are two halves of a surrogate pair, yields a string
  that the way back rejects.
\<close>

theorem convertBase_round_trip_counterexample:
  "convertBase (js ''1'') (BaseString (js ''01'')) (BaseString (js ''a'')) = None
   \<and> convertBase [] (BaseString []) (BaseString (js ''01'')) = Some (Inr (Str (js ''0'')))
   \<and> convertBase (js ''0'') (BaseString (js ''01'')) (BaseString []) = Some (Inr Undefined)
   \<and> convertBase (js ''10'') (BaseString (js ''01'')) (BaseArray [js ''ab'', js ''c''])
       = Some (Inr (Str (js ''cab'')))
   \<and> convertBase (js ''cab'') (BaseArray [js ''ab'', js ''c'']) (BaseString (js ''01''))
       = Some (Inl Error)
   \<and> convertBase (js ''10'') (BaseString (js ''01'')) (BaseArray [[0xDE00], [0xD83D]])
       = Some (Inr (Str [0xD83D, 0xDE00]))
   \<and> convertBase [0xD83D, 0xDE00] (BaseArray [[0xDE00], [0xD83D]]) (BaseString (js ''01''))
       = Some (Inl Error)"
proof -
  have "toDigits [js ''a''] 1 [] = None"
    using toDigits_unary_diverges [of "[js ''a'']" 1 "[]"]
    by (cases "toDigits [js ''a''] 1 []") auto
  then have unary: "convertBase (js ''1'') (BaseString (js ''01'')) (BaseString (js ''a'')) = None"
    by (simp add: convertBase_def base_ev del: toDigits.simps)
  have empty: "convertBase [] (BaseString []) (BaseString (js ''01'')) = Some (Inr (Str (js ''0'')))
      \<and> convertBase (js ''0'') (BaseString (js ''01'')) (BaseString []) = Some (Inr Undefined)"
    by (simp add: convertBase_def base_ev)
  have long: "convertBase (js ''10'') (BaseString (js ''01'')) (BaseArray [js ''ab'', js ''c''])
       = Some (Inr (Str (js ''cab'')))
     \<and> convertBase (js ''cab'') (BaseArray [js ''ab'', js ''c'']) (BaseString (js ''01''))
       = Some (Inl Error)"
    by (simp add: convertBase_def base_ev)
  have halves: "convertBase (js ''10'') (BaseString (js ''01'')) (BaseArray [[0xDE00], [0xD83D]])
       = Some (Inr (Str [0xD83D, 0xDE00]))
     \<and> convertBase [0xD83D, 0xDE00] (BaseArray [[0xDE00], [0xD83D]]) (BaseString (js ''01''))
       = Some (Inl Error)"
    by (simp add: convertBase_def base_ev)
  show ?thesis using unary empty long halves by blast
qed

subsection \<open>The empty value\<close>

text \<open>
  Claim C10, as amended. With the empty string as value, alphabets of valid shape and
  unique symbols, and a non-empty destination alphabet, \<open>convertBase\<close> raises no error
  and returns the first symbol of the destination alphabet.
\<close>

theorem convertBase_empty_value:
  assumes "normalizeBase A = Inr as" "normalizeBase B = Inr (b # bs)"
    and "distinct as" "distinct (b # bs)"
  shows "convertBase [] A B = Some (Inr (Str b))"
  using convertBase_valid [OF assms, of "[]" 0] by simp

text \<open>The theorem at the empty value, from decimal to Base32.\<close>

theorem convertBase_empty_value_witness:
  "convertBase [] (BaseString (js ''0123456789'')) (BaseString (js ''ABCDEFGHIJKLMNOPQRSTUVWXYZ234567''))
     = Some (Inr (Str (js ''A'')))"
  using convertBase_empty_value [of "BaseString (js ''0123456789'')" "codePoints (js ''0123456789'')"
      "BaseString (js ''ABCDEFGHIJKLMNOPQRSTUVWXYZ234567'')" "js ''A''"
      "codePoints (js ''BCDEFGHIJKLMNOPQRSTUVWXYZ234567'')"]
  by (simp add: base_ev)

text \<open>
  Claim C10 as stated covers every alphabet that passes the validation; the empty
  destination alphabet passes it, and the call returns \<^verbatim>\<open>undefined\<close>, not a symbol.
\<close>

theorem convertBase_empty_value_counterexample:
  "convertBase [] (BaseString (js ''01'')) (BaseString []) = Some (Inr Undefined)"
  by (simp add: convertBase_def base_ev)

subsection \<open>The errors\<close>

text \<open>
  Claim C7. \<open>convertBase\<close> raises the type error exactly when one of the alphabet
  arguments is neither a string nor a list. When both have a valid shape and either
  alphabet has a duplicate symbol, or the value has a character that the source
  alphabet lacks, it raises the validation error; the call then returns no result.
\<close>

theorem convertBase_errors:
  "(convertBase v A B = Some (Inl TypeError) \<longleftrightarrow> A = BaseOther \<or> B = BaseOther)
   \<and> (\<forall>as bs. normalizeBase A = Inr as \<and> normalizeBase B = Inr bs
         \<and> (\<not> distinct as \<or> \<not> distinct bs \<or> \<not> set (codePoints v) \<subseteq> set as)
       \<longrightarrow> convertBase v A B = Some (Inl Error))"
proof (intro conjI allI impI)
  show "convertBase v A B = Some (Inl TypeError) \<longleftrightarrow> A = BaseOther \<or> B = BaseOther"
  proof
    assume te: "convertBase v A B = Some (Inl TypeError)"
    show "A = BaseOther \<or> B = BaseOther"
    proof (rule ccontr)
      assume "\<not> ?thesis"
      then obtain as bs where ab: "normalizeBase A = Inr as" "normalizeBase B = Inr bs"
        by (cases A; cases B) (auto simp: normalizeBase_def)
      show False
      proof (cases "distinct as \<and> distinct bs \<and> set (codePoints v) \<subseteq> set as")
        case True
        then obtain n where n: "accumulate (fromMap as) (int (length as)) 0 (codePoints v) = Inr n"
          using accumulate_not_TypeError [of "codePoints v" "fromMap as" "int (length as)" 0]
          by (auto simp: fromMap_None_iff subset_iff)
        show False
          using te True convertBase_valid [OF ab _ _ _ n] toDigits_error [of bs n "[]"]
          by (auto split: if_splits list.splits option.splits sum.splits)
      next
        case False
        then have "convertBase v A B = Some (Inl Error)"
          using ab by (auto simp: convertBase_def hasDuplicates_iff validateValue_cases fromMap_None_iff)
        then show False using te by simp
      qed
    qed
  next
    assume "A = BaseOther \<or> B = BaseOther"
    then show "convertBase v A B = Some (Inl TypeError)"
      by (cases A) (auto simp: convertBase_def normalizeBase_def)
  qed
next
  fix as bs
  assume "normalizeBase A = Inr as \<and> normalizeBase B = Inr bs
         \<and> (\<not> distinct as \<or> \<not> distinct bs \<or> \<not> set (codePoints v) \<subseteq> set as)"
  then show "convertBase v A B = Some (Inl Error)"
    by (auto simp: convertBase_def hasDuplicates_iff validateValue_cases fromMap_None_iff)
qed

text \<open>
  The theorem at the value \<open>9\<close> against the alphabet \<open>01\<close>, at alphabets with a duplicate
  on either side, and at a source alphabet that is neither string nor list.
\<close>

theorem convertBase_errors_witness:
  "convertBase (js ''9'') (BaseString (js ''01'')) (BaseString (js ''0123456789'')) = Some (Inl Error)
   \<and> convertBase (js ''1'') (BaseString (js ''aab'')) (BaseString (js ''01'')) = Some (Inl Error)
   \<and> convertBase (js ''1'') (BaseString (js ''01'')) (BaseArray [js ''a'', js ''b'', js ''a'']) = Some (Inl Error)
   \<and> convertBase (js ''1'') BaseOther (BaseString (js ''01'')) = Some (Inl TypeError)"
proof -
  have a: "convertBase (js ''9'') (BaseString (js ''01'')) (BaseString (js ''0123456789'')) = Some (Inl Error)"
    using convertBase_errors [of "js ''9''" "BaseString (js ''01'')" "BaseString (js ''0123456789'')"]
    by (simp add: base_ev)
  have b: "convertBase (js ''1'') (BaseString (js ''aab'')) (BaseString (js ''01'')) = Some (Inl Error)"
    using convertBase_errors [of "js ''1''" "BaseString (js ''aab'')" "BaseString (js ''01'')"]
    by (simp add: base_ev)
  have c: "convertBase (js ''1'') (BaseString (js ''01'')) (BaseArray [js ''a'', js ''b'', js ''a'']) = Some (Inl Error)"
    using convertBase_errors [of "js ''1''" "BaseString (js ''01'')" "BaseArray [js ''a'', js ''b'', js ''a'']"]
    by (simp add: base_ev)
  have d: "convertBase (js ''1'') BaseOther (BaseString (js ''01'')) = Some (Inl TypeError)"
    using convertBase_errors [of "js ''1''" BaseOther "BaseString (js ''01'')"]
    by simp
  show ?thesis using a b c d by simp
qed

section \<open>Properties of the engine\<close>

subsection \<open>GEN_ID\<close>

text \<open>
  The condition of \<open>GEN_ID\<close> is a non-empty string whatever the flag is, so the result is
  always the resolved absolute path with forward slashes: no prefix, and never the
  relative path.
\<close>

lemma GEN_ID_eq: "GEN_ID cwd f w = slashes (resolve cwd [cwd, f])"
proof -
  have "(if w = FlagNumber 1 then js ''true'' else js ''false'') \<noteq> []"
    by (simp add: js_def)
  then show ?thesis by (simp add: GEN_ID_def Let_def)
qed

subsection \<open>Evaluation on concrete paths and texts\<close>

lemmas path_ev = js_def normalize_def normalizeString_def segments_def isAbsolute_def
  resolve_def dirname_def extname_def slashes_def startsWith_def

lemmas regex_ev = isWhiteSpace_def isLineTerminator_def canonicalize_def
  startsWithIgnoreCase_def relativeStartHere_def REGEX_START_RELATIVE_PATH_test_def
  INJECTIONHOOKS_REGEX_test_def truthy_def

lemmas load_ev = load_def load_simple_def getCommentSyntax_def toLowerCase_def replaceMarker_def
  markerTail_def SENTINEL_def injectionBlock_def isDigit_def digitValue_def importMatchAt_def
  rewriteImport_def fasterSimpleResolveAbsolutePath_def GEN_ID_eq

lemmas forIn_ev = forIn_def isArrayIndex_def indexValue_def isDigit_def digitValue_def

text \<open>
  The escaping leaves the four comment starts of \<open>getCommentSyntax\<close> as they are, but
  for the star of the block comment.
\<close>

lemma EscapeRegExp_comment_starts:
  "EscapeRegExp (js ''//'') = js ''//'' \<and> EscapeRegExp (js ''<!--'') = js ''<!--''
   \<and> EscapeRegExp (js ''#'') = js ''#'' \<and> EscapeRegExp (js ''/*'') = [SLASH, BACKSLASH, 0x2A]"
  by (simp add: EscapeRegExp_def js_def)

text \<open>
  Claim C2 says that, in the default mode, the identifier of a file is the virtual
  prefix followed by the forward-slash path. The code returns the absolute path alone:
  for the file \<open>src/a.scss\<close> under the working directory \<open>/proj\<close> the result is
  \<open>/proj/src/a.scss\<close>, with no prefix, which the engine's own test of the prefix rejects.
\<close>

theorem GEN_ID_has_no_prefix:
  "GEN_ID (js ''/proj'') (js ''src/a.scss'') (FlagBool True) = js ''/proj/src/a.scss''
   \<and> \<not> INJECTIONHOOKS_REGEX_test (GEN_ID (js ''/proj'') (js ''src/a.scss'') (FlagBool True))"
  by (simp add: GEN_ID_eq path_ev regex_ev)

subsection \<open>The path resolution policy\<close>

text \<open>
  Claim C4 gives three examples of the policy. The relative specifier resolves against
  the importer's directory, and the URL gets the code -1 for every importer, as the claim
  says. The bare package name \<open>lodash\<close> with an importer does not get the code -3 of
  an external package: its first letter matches the second alternative of
  \<^verbatim>\<open>REGEX_START_RELATIVE_PATH\<close>, and it is resolved against the importer's directory.
\<close>

theorem path_policy_examples:
  "fasterSimpleResolveAbsolutePath cwd (js ''./sibling.scss'') (Some (js ''/proj/src/a.scss''))
     = Path (js ''/proj/src/sibling.scss'')
   \<and> fasterSimpleResolveAbsolutePath cwd (js ''https://x/y'') importer = Code (- 1)
   \<and> fasterSimpleResolveAbsolutePath cwd (js ''lodash'') (Some (js ''/proj/src/a.scss''))
     = Path (js ''/proj/src/lodash'')"
  by (simp add: fasterSimpleResolveAbsolutePath_def path_ev regex_ev)

text \<open>The simpler implementation does return \<^verbatim>\<open>null\<close> for it.\<close>

lemma simple_lodash:
  "fasterSimpleResolveAbsolutePath_simple cwd (js ''lodash'') (Some (js ''/proj/src/a.scss'')) = None"
  by (simp add: fasterSimpleResolveAbsolutePath_simple_def path_ev regex_ev)

subsection \<open>load: which identifiers it handles\<close>

text \<open>
  Claim C6. \<open>load\<close> returns \<^verbatim>\<open>null\<close> for an identifier that does not carry the virtual
  prefix, and for one that carries it but is no key of the registry; whenever it returns
  a text, the identifier carries the prefix and is a key of the registry.
\<close>

theorem load_null_cases:
  "(\<not> INJECTIONHOOKS_REGEX_test ident \<longrightarrow> load cwd fs hooks ident = Inr None)
   \<and> (INJECTIONHOOKS_REGEX_test ident \<and> ident \<notin> fst ` set hooks \<longrightarrow> load cwd fs hooks ident = Inr None)
   \<and> (\<forall>t. load cwd fs hooks ident = Inr (Some t)
         \<longrightarrow> INJECTIONHOOKS_REGEX_test ident \<and> ident \<in> fst ` set hooks)"
proof (intro conjI allI impI)
  show "\<not> INJECTIONHOOKS_REGEX_test ident \<Longrightarrow> load cwd fs hooks ident = Inr None"
    by (simp add: load_def)
next
  assume "INJECTIONHOOKS_REGEX_test ident \<and> ident \<notin> fst ` set hooks"
  then have "map_of hooks ident = None" by (simp add: map_of_eq_None_iff)
  then show "load cwd fs hooks ident = Inr None" by (simp add: load_def)
next
  fix t assume l: "load cwd fs hooks ident = Inr (Some t)"
  then show "INJECTIONHOOKS_REGEX_test ident" by (auto simp: load_def split: if_splits)
  from l have "map_of hooks ident \<noteq> None"
    by (auto simp: load_def split: if_splits option.splits)
  then show "ident \<in> fst ` set hooks" by (simp add: map_of_eq_None_iff)
qed

text \<open>
  The theorem at a registry of one hook: an identifier without the prefix, one with the
  prefix that is not registered, and the registered one.
\<close>

theorem load_null_cases_witness:
  "load (js ''/proj'') [js ''src/a.scss'' \<mapsto> js ''x'']
        [(js ''@InjectionHooks_ts:src/a.scss'', Hook (js ''src/a.scss'') None (\<lambda>_. []))]
        (js ''/proj/src/a.scss'') = Inr None
   \<and> load (js ''/proj'') [js ''src/a.scss'' \<mapsto> js ''x'']
        [(js ''@InjectionHooks_ts:src/a.scss'', Hook (js ''src/a.scss'') None (\<lambda>_. []))]
        (js ''@InjectionHooks_ts:src/b.scss'') = Inr None
   \<and> load (js ''/proj'') [js ''src/a.scss'' \<mapsto> js ''x'']
        [(js ''@InjectionHooks_ts:src/a.scss'', Hook (js ''src/a.scss'') None (\<lambda>_. []))]
        (js ''@InjectionHooks_ts:src/a.scss'') = Inr (Some (js ''x''))
   \<and> INJECTIONHOOKS_REGEX_test (js ''@InjectionHooks_ts:src/a.scss'')"
proof -
  let ?fs = "[js ''src/a.scss'' \<mapsto> js ''x'']"
  let ?hooks = "[(js ''@InjectionHooks_ts:src/a.scss'', Hook (js ''src/a.scss'') None (\<lambda>_. []))]"
  have a: "\<not> INJECTIONHOOKS_REGEX_test (js ''/proj/src/a.scss'')"
    by (simp add: regex_ev js_def)
  have b: "INJECTIONHOOKS_REGEX_test (js ''@InjectionHooks_ts:src/b.scss'')
           \<and> js ''@InjectionHooks_ts:src/b.scss'' \<notin> fst ` set ?hooks"
    by (simp add: regex_ev js_def)
  have c: "load (js ''/proj'') ?fs ?hooks (js ''@InjectionHooks_ts:src/a.scss'') = Inr (Some (js ''x''))"
    by (simp add: load_ev regex_ev path_ev)
  show ?thesis
    using a b c
      load_null_cases [of "js ''/proj/src/a.scss''" "js ''/proj''" ?fs ?hooks]
      load_null_cases [of "js ''@InjectionHooks_ts:src/b.scss''" "js ''/proj''" ?fs ?hooks]
      load_null_cases [of "js ''@InjectionHooks_ts:src/a.scss''" "js ''/proj''" ?fs ?hooks]
    by blast
qed

subsection \<open>resolveId and the registry\<close>

lemma assign_keyed:
  "\<forall>(k', h') \<in> set r. k' = key h' \<Longrightarrow> \<forall>(k', h') \<in> set (assign r (key h) h). k' = key h'"
  by (induction r "key h" h rule: assign.induct) auto

lemma foldl_assign_keyed:
  "\<forall>(k', h') \<in> set r. k' = key h' \<Longrightarrow>
   \<forall>(k', h') \<in> set (foldl (\<lambda>acumulador atual. assign acumulador (key atual) atual) r a). k' = key h'"
proof (induction a arbitrary: r)
  case Nil then show ?case by simp
next
  case (Cons h a)
  show ?case using Cons.IH [OF assign_keyed [OF Cons.prems, of h]] by simp
qed

lemma normalizedHooks_keyed:
  "(k, h) \<in> set (normalizedHooks cwd (HooksArray a)) \<Longrightarrow> k = GEN_ID cwd (filePath h) (FlagBool True)"
  using foldl_assign_keyed [of "[]" "\<lambda>h. GEN_ID cwd (filePath h) (FlagBool True)" a]
  by (auto simp: normalizedHooks_def)

text \<open>
  The enumeration permutes the registry, and leaves it as it is when no key is an array
  index. \<open>GEN_ID\<close> under an absolute working directory begins with a slash, so the
  keys of a registry built from an array are no array indices.
\<close>

lemma set_forIn: "set (forIn r) = set r"
  by (auto simp: forIn_def)

lemma forIn_no_index:
  assumes "list_all (\<lambda>(k, h). \<not> isArrayIndex k) r"
  shows "forIn r = r"
proof -
  have a: "filter (\<lambda>(k, h). isArrayIndex k) r = []"
    using assms by (auto simp: filter_empty_conv list_all_iff)
  have b: "filter (\<lambda>(k, h). \<not> isArrayIndex k) r = r"
    using assms by (auto simp: filter_id_conv list_all_iff)
  show ?thesis by (simp add: forIn_def a b)
qed

lemma GEN_ID_absolute:
  assumes "isAbsolute cwd"
  shows "\<exists>t. GEN_ID cwd f w = SLASH # t"
proof -
  have ne: "cwd \<noteq> []" using assms by (auto simp: isAbsolute_def)
  obtain rp where rp: "resolveLoop [f, cwd, cwd] [] = (rp, True)"
    using assms ne by (cases "f = []"; cases "isAbsolute f") auto
  have "resolve cwd [cwd, f] = SLASH # normalizeString rp False"
    using rp by (simp add: resolve_def)
  then show ?thesis
    by (simp add: GEN_ID_eq slashes_def)
qed

lemma not_isArrayIndex_slash: "\<not> isArrayIndex (SLASH # t)"
  by (simp add: isArrayIndex_def isDigit_def)

lemma forIn_normalizedHooks:
  assumes "isAbsolute cwd"
  shows "forIn (normalizedHooks cwd (HooksArray a)) = normalizedHooks cwd (HooksArray a)"
proof (rule forIn_no_index)
  show "list_all (\<lambda>(k, h). \<not> isArrayIndex k) (normalizedHooks cwd (HooksArray a))"
    unfolding list_all_iff
  proof (intro ballI)
    fix x assume x: "x \<in> set (normalizedHooks cwd (HooksArray a))"
    obtain k h where kh: "x = (k, h)" by (cases x)
    have "k = GEN_ID cwd (filePath h) (FlagBool True)"
      using normalizedHooks_keyed x kh by blast
    then obtain t where "k = SLASH # t"
      using GEN_ID_absolute [OF assms] by blast
    then show "case x of (k, h) \<Rightarrow> \<not> isArrayIndex k"
      using kh not_isArrayIndex_slash by simp
  qed
qed

text \<open>
  Claim C9, as amended. When \<open>resolveId\<close> returns a result, the policy has resolved the
  specifier to a path, and the returned identifier is \<open>GEN_ID\<close> of the file path of the
  first hook whose matcher accepts that path, in the order in which the registry is
  enumerated: the keys that are array indices first, in ascending order, then the other
  keys in the order of insertion. That is the order of insertion when no key is an array
  index. For a registry built from an array of hooks the returned identifier is one of
  its keys, and under an absolute working directory its enumeration is the order of
  insertion.
\<close>

theorem resolveId_first_match:
  assumes "resolveId cwd hooks source importer = Some r"
  shows "(\<exists>p i. fasterSimpleResolveAbsolutePath cwd (slashes (normalize source))
                  (effectiveImporter cwd hooks importer) = Path p
            \<and> i < length (forIn hooks)
            \<and> isMatch (Object (snd (forIn hooks ! i))) p
            \<and> (\<forall>j<i. \<not> isMatch (Object (snd (forIn hooks ! j))) p)
            \<and> resolvedId r = GEN_ID cwd (filePath (snd (forIn hooks ! i))) (FlagBool True))
         \<and> (list_all (\<lambda>(k, h). \<not> isArrayIndex k) hooks \<longrightarrow> forIn hooks = hooks)
         \<and> (hooks = normalizedHooks cwd (HooksArray a) \<longrightarrow>
               resolvedId r \<in> fst ` set hooks \<and> (isAbsolute cwd \<longrightarrow> forIn hooks = hooks))"
proof -
  obtain p where p: "fasterSimpleResolveAbsolutePath cwd (slashes (normalize source))
                  (effectiveImporter cwd hooks importer) = Path p"
    using assms by (auto simp: resolveId_def split: resolution.splits)
  obtain k hook where f: "find (\<lambda>(k, hook). isMatch (Object hook) p) (forIn hooks) = Some (k, hook)"
    and r: "r = Resolved (GEN_ID cwd (filePath hook) (FlagBool True)) (drop 1 (extname p))"
    using assms p by (auto simp: resolveId_def split: option.splits)
  obtain i where i: "i < length (forIn hooks)" "isMatch (Object (snd (forIn hooks ! i))) p"
    "(k, hook) = forIn hooks ! i"
    "\<forall>j<i. \<not> isMatch (Object (snd (forIn hooks ! j))) p"
    using f by (auto simp: find_Some_iff case_prod_beta)
  have hk: "snd (forIn hooks ! i) = hook" using i(3) by (metis snd_conv)
  have first: "\<exists>p i. fasterSimpleResolveAbsolutePath cwd (slashes (normalize source))
                  (effectiveImporter cwd hooks importer) = Path p
            \<and> i < length (forIn hooks)
            \<and> isMatch (Object (snd (forIn hooks ! i))) p
            \<and> (\<forall>j<i. \<not> isMatch (Object (snd (forIn hooks ! j))) p)
            \<and> resolvedId r = GEN_ID cwd (filePath (snd (forIn hooks ! i))) (FlagBool True)"
    using p i(1,2,4) hk r by auto
  have order: "forIn hooks = hooks" if "list_all (\<lambda>(k, h). \<not> isArrayIndex k) hooks"
    using that by (rule forIn_no_index)
  have second: "resolvedId r \<in> fst ` set hooks \<and> (isAbsolute cwd \<longrightarrow> forIn hooks = hooks)"
    if "hooks = normalizedHooks cwd (HooksArray a)"
  proof -
    have "(k, hook) \<in> set (forIn hooks)" using i(1,3) by (metis nth_mem)
    then have m: "(k, hook) \<in> set hooks" by (simp add: set_forIn)
    then have "k = GEN_ID cwd (filePath hook) (FlagBool True)"
      using normalizedHooks_keyed that by blast
    then have "resolvedId r \<in> fst ` set hooks" using m r by force
    then show ?thesis using forIn_normalizedHooks that by blast
  qed
  show ?thesis using first order second by blast
qed

text \<open>
  The theorem at a registry built from an array of one hook, whose matcher accepts the
  path that \<open>./a.scss\<close> resolves to.
\<close>

theorem resolveId_first_match_witness:
  "resolveId (js ''/proj'')
     (normalizedHooks (js ''/proj'') (HooksArray
        [Hook (js ''src/a.scss'') (Some (RegExp (\<lambda>p. p = js ''/proj/src/a.scss''))) (\<lambda>_. [])]))
     (js ''./a.scss'') (Some (js ''/proj/src/main.scss''))
     = Some (Resolved (js ''/proj/src/a.scss'') (js ''scss''))
   \<and> js ''/proj/src/a.scss'' \<in> fst ` set (normalizedHooks (js ''/proj'') (HooksArray
        [Hook (js ''src/a.scss'') (Some (RegExp (\<lambda>p. p = js ''/proj/src/a.scss''))) (\<lambda>_. [])]))
   \<and> forIn (normalizedHooks (js ''/proj'') (HooksArray
        [Hook (js ''src/a.scss'') (Some (RegExp (\<lambda>p. p = js ''/proj/src/a.scss''))) (\<lambda>_. [])]))
     = normalizedHooks (js ''/proj'') (HooksArray
        [Hook (js ''src/a.scss'') (Some (RegExp (\<lambda>p. p = js ''/proj/src/a.scss''))) (\<lambda>_. [])])"
proof -
  let ?a = "[Hook (js ''src/a.scss'') (Some (RegExp (\<lambda>p. p = js ''/proj/src/a.scss''))) (\<lambda>_. [])]"
  let ?hooks = "normalizedHooks (js ''/proj'') (HooksArray ?a)"
  have ev: "resolveId (js ''/proj'') ?hooks (js ''./a.scss'') (Some (js ''/proj/src/main.scss''))
     = Some (Resolved (js ''/proj/src/a.scss'') (js ''scss''))"
    by (simp add: load_ev regex_ev path_ev forIn_ev resolveId_def normalizedHooks_def
          effectiveImporter_def)
  have ab: "isAbsolute (js ''/proj'')" by (simp add: isAbsolute_def js_def)
  from resolveId_first_match [OF ev, of ?a] ab
  have "resolvedId (Resolved (js ''/proj/src/a.scss'') (js ''scss'')) \<in> fst ` set ?hooks
        \<and> forIn ?hooks = ?hooks"
    by blast
  then show ?thesis using ev by simp
qed

text \<open>
  Claim C9 as stated has the first hook in the order of insertion. In a registry given
  as an object with the keys \<open>@injectionhooks_ts:b\<close> and \<open>7\<close>, inserted in that order,
  both hooks accept the resolved path; the key \<open>7\<close> is enumerated first, and the
  returned identifier is that of its hook, not of the hook inserted first.
\<close>

theorem resolveId_first_match_counterexample:
  "resolveId (js ''/proj'')
     [(js ''@injectionhooks_ts:b'', Hook (js ''src/b.scss'') (Some (RegExp (\<lambda>p. True))) (\<lambda>_. [])),
      (js ''7'', Hook (js ''src/seven.scss'') (Some (RegExp (\<lambda>p. True))) (\<lambda>_. []))]
     (js ''/proj/src/x.scss'') None
     = Some (Resolved (js ''/proj/src/seven.scss'') (js ''scss''))
   \<and> fasterSimpleResolveAbsolutePath (js ''/proj'') (slashes (normalize (js ''/proj/src/x.scss''))) None
     = Path (js ''/proj/src/x.scss'')
   \<and> isMatch (Object (Hook (js ''src/b.scss'') (Some (RegExp (\<lambda>p. True))) (\<lambda>_. []))) (js ''/proj/src/x.scss'')
   \<and> GEN_ID (js ''/proj'') (js ''src/b.scss'') (FlagBool True) = js ''/proj/src/b.scss''"
  by (simp add: load_ev regex_ev path_ev forIn_ev resolveId_def effectiveImporter_def)

subsection \<open>load: the marker\<close>

text \<open>
  A match splits the text in three, and a replacement without a dollar sign is spliced
  in as it is.
\<close>

lemma getSubstitution_no_dollar:
  "DOLLAR \<notin> set template \<Longrightarrow> getSubstitution m pre caps post template = template"
  by (induction m pre caps post template rule: getSubstitution.induct) auto

lemma markerExec_split:
  "markerExec cmt_start atStart s = Some (pre, m, caps, post) \<Longrightarrow> s = pre @ m @ post"
proof (induction s arbitrary: atStart pre)
  case Nil then show ?case by simp
next
  case (Cons c cs)
  then show ?case
    by (auto split: option.splits if_splits simp del: take_Suc_Cons drop_Suc_Cons)
qed

lemma replaceMarker_plain:
  "DOLLAR \<notin> set replacement \<Longrightarrow>
   replaceMarker cmt_start s replacement =
     (case markerExec cmt_start True s of
        None \<Rightarrow> s
      | Some (pre, m, caps, post) \<Rightarrow> pre @ replacement @ post)"
  by (simp add: replaceMarker_def getSubstitution_no_dollar split: option.splits)

text \<open>
  Claim C5 says that the first match of the marker is replaced by the block around the
  hook's content, as computed. The replacement is passed to \<^verbatim>\<open>replace\<close> as a string, so
  its dollar patterns are expanded. For the content \<^verbatim>\<open>$c: '$';\<close> the dollar sign and the
  quote after it are replaced by the text after the match, here \<open>b\<close>, and the spliced
  content is \<^verbatim>\<open>$c: 'b;\<close>.
\<close>

theorem load_expands_dollar_patterns:
  "load (js ''/proj'')
        [js ''/proj/src/a.scss'' \<mapsto>
           js ''a'' @ [NEWLINE] @ js ''// {generate-global-css-vars.ts: variables}'' @ [NEWLINE] @ js ''b'']
        [(js ''@InjectionHooks_ts:src/a.scss'',
          Hook (js ''/proj/src/a.scss'') None (\<lambda>_. js ''$c: '' @ [0x27] @ js ''$'' @ [0x27] @ js '';''))]
        (js ''@InjectionHooks_ts:src/a.scss'')
   = Inr (Some (js ''a'' @ [NEWLINE, NEWLINE]
        @ js ''//[START INJECTION]: generate-global-css-vars.ts:'' @ [NEWLINE, NEWLINE]
        @ js ''$c: '' @ [0x27] @ js ''b;'' @ [NEWLINE, NEWLINE]
        @ js ''//[END INJECTION]: generate-global-css-vars.ts.'' @ [NEWLINE, NEWLINE]
        @ js ''b''))"
  by (simp add: load_ev path_ev regex_ev)

subsection \<open>load: the relative imports\<close>

lemma rewriteImports_skip:
  "\<forall>i<length pre. importMatchAt (drop i (pre @ rest)) = None \<Longrightarrow>
   rewriteImports cwd fp (pre @ rest) = pre @ rewriteImports cwd fp rest"
proof (induction pre)
  case Nil then show ?case by simp
next
  case (Cons c pre)
  have h: "importMatchAt (c # pre @ rest) = None" using Cons.prems by force
  have "\<forall>i<length pre. importMatchAt (drop i (pre @ rest)) = None"
  proof (intro allI impI)
    fix i assume "i < length pre"
    then have "importMatchAt (drop (Suc i) ((c # pre) @ rest)) = None"
      using Cons.prems by (metis Suc_less_eq length_Cons)
    then show "importMatchAt (drop i (pre @ rest)) = None" by simp
  qed
  then show ?case using Cons.IH h by simp
qed

lemma rewriteImports_match:
  assumes "importMatchAt (stmt @ post) = Some (length stmt, q, rp)" "stmt \<noteq> []"
  shows "rewriteImports cwd fp (stmt @ post) = rewriteImport cwd fp stmt rp @ rewriteImports cwd fp post"
proof -
  obtain c cs where s: "stmt = c # cs" using assms(2) by (cases stmt) auto
  show ?thesis using assms(1) unfolding s by simp
qed

lemma takeWhile_all_then:
  "\<forall>c\<in>set xs. P c \<Longrightarrow> \<not> P y \<Longrightarrow> takeWhile P (xs @ y # ys) = xs"
  by (induction xs) auto

lemma dropWhile_all_then:
  "\<forall>c\<in>set xs. P c \<Longrightarrow> \<not> P y \<Longrightarrow> dropWhile P (xs @ y # ys) = y # ys"
  by (induction xs) auto

lemma importMatchAt_statement:
  assumes kw: "kw = js ''@use'' \<or> kw = js ''@import''"
    and ws: "ws \<noteq> []" "\<forall>c\<in>set ws. isWhiteSpace c"
    and q: "q = 0x22 \<or> q = 0x27"
    and lead: "lead = js ''./'' \<or> lead = js ''../''"
    and body: "\<forall>c\<in>set body. c \<noteq> q \<and> \<not> isLineTerminator c"
  shows "importMatchAt (kw @ ws @ q # lead @ body @ q # post)
           = Some (length (kw @ ws @ q # lead @ body @ [q]), q, lead @ body)"
proof -
  have qn: "\<not> isWhiteSpace q" using q by (auto simp: isWhiteSpace_def)
  have dw: "dropWhile isWhiteSpace (ws @ q # r) = q # r" for r
    by (rule dropWhile_all_then [OF ws(2) qn])
  have tw: "takeWhile (\<lambda>c. c \<noteq> q \<and> \<not> isLineTerminator c) (body @ q # r) = body" for r
    using takeWhile_all_then [of body "\<lambda>c. c \<noteq> q \<and> \<not> isLineTerminator c" q r] body by simp
  have len: "length (ws @ q # r) \<noteq> length (q # r)" for r using ws(1) by simp
  have qq: "(q \<noteq> 0x22 \<and> q \<noteq> 0x27) = False" using q by auto
  show ?thesis
    using kw lead len
    by (auto simp: importMatchAt_def Let_def startsWithIgnoreCase_def startsWith_def js_def
          canonicalize_def dw tw qq numeral_3_eq_3)
qed

text \<open>
  Claim C3, as amended. For a registered identifier with the prefix, \<open>load\<close> returns the
  text after the marker replacement with its relative imports rewritten. Where that text
  has, after a part \<open>pre\<close> in which no match begins, a statement made of the keyword
  \<^verbatim>\<open>@use\<close> or \<^verbatim>\<open>@import\<close> in lower case, white space, a quote, a path that begins with
  \<^verbatim>\<open>./\<close> or \<^verbatim>\<open>../\<close> and has neither that quote nor a line terminator, and the same quote,
  the statement becomes: when the path resolves against the real file, the keyword, one
  space and, in single quotes whatever the quote was, the resolved absolute path with
  forward slashes and no prefix; otherwise the statement as it was.
\<close>

theorem load_rewrites_relative_imports:
  assumes "INJECTIONHOOKS_REGEX_test ident" and "map_of hooks ident = Some hook"
    and "fs (filePath hook) = Some originalCode"
    and "getCommentSyntax (filePath hook) = (cmt_start, cmt_end)"
    and "kw = js ''@use'' \<or> kw = js ''@import''"
    and "ws \<noteq> []" and "\<forall>c\<in>set ws. isWhiteSpace c"
    and "q = 0x22 \<or> q = 0x27"
    and "lead = js ''./'' \<or> lead = js ''../''"
    and "\<forall>c\<in>set body. c \<noteq> q \<and> \<not> isLineTerminator c"
    and "\<forall>i<length pre. importMatchAt (drop i (pre @ (kw @ ws @ q # lead @ body @ [q]) @ post)) = None"
  shows "load cwd fs hooks ident =
           Inr (Some (rewriteImports cwd (filePath hook)
             (replaceMarker cmt_start originalCode
                (injectionBlock cmt_start cmt_end (getContent hook ())))))
         \<and> rewriteImports cwd (filePath hook) (pre @ (kw @ ws @ q # lead @ body @ [q]) @ post) =
             pre
             @ (case fasterSimpleResolveAbsolutePath cwd (lead @ body) (Some (filePath hook)) of
                  Path absolutePath \<Rightarrow> kw @ [0x20, 0x27] @ slashes (resolve cwd [cwd, absolutePath]) @ [0x27]
                | Code n \<Rightarrow> kw @ ws @ q # lead @ body @ [q])
             @ rewriteImports cwd (filePath hook) post"
proof
  show "load cwd fs hooks ident =
           Inr (Some (rewriteImports cwd (filePath hook)
             (replaceMarker cmt_start originalCode
                (injectionBlock cmt_start cmt_end (getContent hook ())))))"
    using assms(1-4) by (simp add: load_def)
next
  let ?stmt = "kw @ ws @ q # lead @ body @ [q]"
  have m: "importMatchAt (?stmt @ post) = Some (length ?stmt, q, lead @ body)"
    using importMatchAt_statement [OF assms(5-10), of post] by simp
  have ne: "?stmt \<noteq> []" by simp
  have kwu: "(if startsWith ?stmt (js ''@use'') then js ''@use'' else js ''@import'') = kw"
    using assms(5) by (auto simp: startsWith_def js_def)
  have "rewriteImports cwd (filePath hook) (pre @ ?stmt @ post)
        = pre @ rewriteImports cwd (filePath hook) (?stmt @ post)"
    using rewriteImports_skip [OF assms(11)] by simp
  also have "rewriteImports cwd (filePath hook) (?stmt @ post)
        = rewriteImport cwd (filePath hook) ?stmt (lead @ body) @ rewriteImports cwd (filePath hook) post"
    by (rule rewriteImports_match [OF m ne])
  also have "rewriteImport cwd (filePath hook) ?stmt (lead @ body)
        = (case fasterSimpleResolveAbsolutePath cwd (lead @ body) (Some (filePath hook)) of
                  Path absolutePath \<Rightarrow> kw @ [0x20, 0x27] @ slashes (resolve cwd [cwd, absolutePath]) @ [0x27]
                | Code n \<Rightarrow> ?stmt)"
    unfolding rewriteImport_def kwu by (simp add: GEN_ID_eq split: resolution.splits)
  finally show "rewriteImports cwd (filePath hook) (pre @ ?stmt @ post) =
             pre
             @ (case fasterSimpleResolveAbsolutePath cwd (lead @ body) (Some (filePath hook)) of
                  Path absolutePath \<Rightarrow> kw @ [0x20, 0x27] @ slashes (resolve cwd [cwd, absolutePath]) @ [0x27]
                | Code n \<Rightarrow> ?stmt)
             @ rewriteImports cwd (filePath hook) post"
    by simp
qed

text \<open>
  The theorem at a file of three lines: the relative import of the second line is
  rewritten, the import of the third, which is not relative, stays.
\<close>

theorem load_rewrites_relative_imports_witness:
  "load (js ''/proj'')
        [js ''/proj/src/scss/global/_variables.scss'' \<mapsto>
           js ''a;'' @ [NEWLINE] @ js ''@use '' @ [0x27] @ js ''./skins/dark'' @ [0x27] @ js '';'' @ [NEWLINE]
           @ js ''@use '' @ [0x27] @ js ''other/non-matching'' @ [0x27] @ js '';'']
        [(js ''@InjectionHooks_ts:vars'', Hook (js ''/proj/src/scss/global/_variables.scss'') None (\<lambda>_. []))]
        (js ''@InjectionHooks_ts:vars'')
   = Inr (Some (js ''a;'' @ [NEWLINE] @ js ''@use '' @ [0x27] @ js ''/proj/src/scss/global/skins/dark'' @ [0x27]
           @ js '';'' @ [NEWLINE] @ js ''@use '' @ [0x27] @ js ''other/non-matching'' @ [0x27] @ js '';''))"
proof -
  let ?fp = "js ''/proj/src/scss/global/_variables.scss''"
  let ?post = "js '';'' @ [NEWLINE] @ js ''@use '' @ [0x27] @ js ''other/non-matching'' @ [0x27] @ js '';''"
  let ?code = "js ''a;'' @ [NEWLINE] @ js ''@use '' @ [0x27] @ js ''./skins/dark'' @ [0x27] @ ?post"
  let ?hook = "Hook ?fp None (\<lambda>_. [])"
  have marker: "replaceMarker (js ''//'') ?code (injectionBlock (js ''//'') [] []) = ?code"
    by (simp add: load_ev regex_ev js_def)
  have rest: "rewriteImports (js ''/proj'') ?fp ?post = ?post"
    by (simp add: load_ev regex_ev path_ev)
  have res: "fasterSimpleResolveAbsolutePath (js ''/proj'') (js ''./'' @ js ''skins/dark'') (Some ?fp)
       = Path (js ''/proj/src/scss/global/skins/dark'')"
    by (simp add: load_ev regex_ev path_ev)
  have again: "slashes (resolve (js ''/proj'') [js ''/proj'', js ''/proj/src/scss/global/skins/dark''])
       = js ''/proj/src/scss/global/skins/dark''"
    by (simp add: path_ev)
  have "load (js ''/proj'') [?fp \<mapsto> ?code] [(js ''@InjectionHooks_ts:vars'', ?hook)] (js ''@InjectionHooks_ts:vars'')
           = Inr (Some (rewriteImports (js ''/proj'') (filePath ?hook)
             (replaceMarker (js ''//'') ?code (injectionBlock (js ''//'') [] (getContent ?hook ())))))
         \<and> rewriteImports (js ''/proj'') (filePath ?hook)
              ((js ''a;'' @ [NEWLINE]) @ (js ''@use'' @ [0x20] @ 0x27 # js ''./'' @ js ''skins/dark'' @ [0x27]) @ ?post) =
             (js ''a;'' @ [NEWLINE])
             @ (case fasterSimpleResolveAbsolutePath (js ''/proj'') (js ''./'' @ js ''skins/dark'') (Some (filePath ?hook)) of
                  Path absolutePath \<Rightarrow> js ''@use'' @ [0x20, 0x27] @ slashes (resolve (js ''/proj'') [js ''/proj'', absolutePath]) @ [0x27]
                | Code n \<Rightarrow> js ''@use'' @ [0x20] @ 0x27 # js ''./'' @ js ''skins/dark'' @ [0x27])
             @ rewriteImports (js ''/proj'') (filePath ?hook) ?post"
    by (rule load_rewrites_relative_imports)
       (simp_all add: All_less_Suc load_ev regex_ev path_ev)
  then show ?thesis
    using marker rest res again by (simp add: js_def)
qed

text \<open>A path with a colon after a letter does not resolve, and its statement stays.\<close>

lemma rewriteImports_unresolved_example:
  "rewriteImports (js ''/proj'') (js ''/proj/src/a.scss'')
     (js ''@import '' @ [0x22] @ js ''./x:y'' @ [0x22] @ js '';'')
   = js ''@import '' @ [0x22] @ js ''./x:y'' @ [0x22] @ js '';''"
  by (simp add: load_ev regex_ev path_ev)

text \<open>
  Claim C3 as stated has the statement keep its quote style and get the prefixed
  identifier. A statement in double quotes comes back in single quotes, with the bare
  absolute path.
\<close>

theorem load_rewrites_relative_imports_counterexample:
  "load (js ''/proj'')
        [js ''/proj/src/a.scss'' \<mapsto> js ''@use '' @ [0x22] @ js ''./b'' @ [0x22] @ js '';'']
        [(js ''@InjectionHooks_ts:src/a.scss'', Hook (js ''/proj/src/a.scss'') None (\<lambda>_. []))]
        (js ''@InjectionHooks_ts:src/a.scss'')
   = Inr (Some (js ''@use '' @ [0x27] @ js ''/proj/src/b'' @ [0x27] @ js '';''))"
  by (simp add: load_ev regex_ev path_ev)

subsection \<open>The two implementations\<close>

text \<open>
  Claim C8, as amended. On the same file system, registry and identifier, the \<open>load\<close> of
  the implementation with import rewriting returns \<^verbatim>\<open>null\<close> exactly when the simpler one
  does, fails to read exactly when the simpler one does, and where the simpler one returns
  a text it returns that text with the relative imports rewritten.
\<close>

theorem load_extends_load_simple:
  "(load cwd fs hooks ident = Inr None \<longleftrightarrow> load_simple fs hooks ident = Inr None)
   \<and> (load cwd fs hooks ident = Inl ReadError \<longleftrightarrow> load_simple fs hooks ident = Inl ReadError)
   \<and> (\<forall>t. load_simple fs hooks ident = Inr (Some t) \<longrightarrow>
         (\<exists>hook. map_of hooks ident = Some hook
            \<and> load cwd fs hooks ident = Inr (Some (rewriteImports cwd (filePath hook) t))))"
  by (auto simp: load_def load_simple_def split: option.splits prod.splits)

text \<open>The theorem at a file with one relative import.\<close>

theorem load_extends_load_simple_witness:
  "load_simple
        [js ''src/a.scss'' \<mapsto> js ''@use '' @ [0x27] @ js ''./b'' @ [0x27] @ js '';'']
        [(js ''@InjectionHooks_ts:src/a.scss'', Hook (js ''src/a.scss'') None (\<lambda>_. []))]
        (js ''@InjectionHooks_ts:src/a.scss'')
   = Inr (Some (js ''@use '' @ [0x27] @ js ''./b'' @ [0x27] @ js '';''))
   \<and> load (js ''/proj'')
        [js ''src/a.scss'' \<mapsto> js ''@use '' @ [0x27] @ js ''./b'' @ [0x27] @ js '';'']
        [(js ''@InjectionHooks_ts:src/a.scss'', Hook (js ''src/a.scss'') None (\<lambda>_. []))]
        (js ''@InjectionHooks_ts:src/a.scss'')
   = Inr (Some (rewriteImports (js ''/proj'') (js ''src/a.scss'')
                 (js ''@use '' @ [0x27] @ js ''./b'' @ [0x27] @ js '';'')))"
proof -
  let ?fs = "[js ''src/a.scss'' \<mapsto> js ''@use '' @ [0x27] @ js ''./b'' @ [0x27] @ js '';'']"
  let ?hooks = "[(js ''@InjectionHooks_ts:src/a.scss'', Hook (js ''src/a.scss'') None (\<lambda>_. []))]"
  let ?id = "js ''@InjectionHooks_ts:src/a.scss''"
  have s: "load_simple ?fs ?hooks ?id = Inr (Some (js ''@use '' @ [0x27] @ js ''./b'' @ [0x27] @ js '';''))"
    by (simp add: load_ev regex_ev path_ev)
  show ?thesis
    using s load_extends_load_simple [of "js ''/proj''" ?fs ?hooks ?id] by auto
qed

text \<open>
  Claim C8 as stated has the two implementations return the same results. On a file
  with a relative import the texts differ, and the identifiers that the two \<open>resolveId\<close>
  return for the same hooks, specifier and importer differ as the two \<open>GEN_ID\<close> do.
\<close>

theorem load_extends_load_simple_counterexample:
  "load_simple
        [js ''src/a.scss'' \<mapsto> js ''@use '' @ [0x27] @ js ''./b'' @ [0x27] @ js '';'']
        [(js ''@InjectionHooks_ts:src/a.scss'', Hook (js ''src/a.scss'') None (\<lambda>_. []))]
        (js ''@InjectionHooks_ts:src/a.scss'')
     = Inr (Some (js ''@use '' @ [0x27] @ js ''./b'' @ [0x27] @ js '';''))
   \<and> load (js ''/proj'')
        [js ''src/a.scss'' \<mapsto> js ''@use '' @ [0x27] @ js ''./b'' @ [0x27] @ js '';'']
        [(js ''@InjectionHooks_ts:src/a.scss'', Hook (js ''src/a.scss'') None (\<lambda>_. []))]
        (js ''@InjectionHooks_ts:src/a.scss'')
     = Inr (Some (js ''@use '' @ [0x27] @ js ''/proj/src/b'' @ [0x27] @ js '';''))
   \<and> resolveId_simple (js ''/proj'')
        (normalizedHooks_simple (HooksArray
           [Hook (js ''src/a.scss'') (Some (RegExp (\<lambda>p. p = js ''/proj/src/a.scss''))) (\<lambda>_. [])]))
        (js ''/proj/src/a.scss'') None
     = Some (Resolved (js ''@InjectionHooks_ts:src/a.scss'') (js ''scss''))
   \<and> resolveId (js ''/proj'')
        (normalizedHooks (js ''/proj'') (HooksArray
           [Hook (js ''src/a.scss'') (Some (RegExp (\<lambda>p. p = js ''/proj/src/a.scss''))) (\<lambda>_. [])]))
        (js ''/proj/src/a.scss'') None
     = Some (Resolved (js ''/proj/src/a.scss'') (js ''scss''))"
  by (simp add: load_ev regex_ev path_ev forIn_ev resolveId_def resolveId_simple_def normalizedHooks_def
       normalizedHooks_simple_def GEN_ID_simple_def fasterSimpleResolveAbsolutePath_simple_def
       effectiveImporter_def)

end
